theory Spec2Isabelle
  imports Main "HOL-Library.Word"
begin

unbundle bit_operations_syntax

section \<open>Relation sets: \<^verbatim>\<open>pgstrom_open_relation_set\<close> and \<^verbatim>\<open>pgstrom_close_relation_set\<close>\<close>

text \<open>
  A relation handle is what \<^verbatim>\<open>relation_openrv\<close> returns: the relation found under a
  name in the shadow schema, with its \<^verbatim>\<open>relkind\<close>. The catalog maps a name to the
  relation stored under it; a name that is not there makes \<^verbatim>\<open>relation_openrv\<close> raise.
  Lock modes are passed through unchanged by the source and are left out.
\<close>

datatype relkind =
  RELKIND_RELATION | RELKIND_INDEX | RELKIND_SEQUENCE | RELKIND_FOREIGN_TABLE

record relation =
  rel_oid :: nat
  rel_name :: string
  rel_relkind :: relkind

type_synonym catalog = "string \<Rightarrow> relation option"

record pg_attribute =
  attname :: string
  attisdropped :: bool

text \<open>
  The base relation as the function reads it: its name, the name of its namespace, its
  \<^verbatim>\<open>relkind\<close>, whether the handler of its foreign data wrapper is
  \<^verbatim>\<open>pgstromFdwHandlerData\<close>, and its attributes.
\<close>

record base_relation =
  base_name :: string
  base_schema :: string
  base_relkind :: relkind
  base_managed :: bool
  base_attrs :: "pg_attribute list"

record relation_set =
  base_rel :: base_relation
  rowid_rel :: "relation option"
  rowid_idx :: "relation option"
  cs_rel :: "relation option list"
  cs_idx :: "relation option list"
  rowid_seqid :: nat

datatype open_error =
  NotForeignTable string
  | NotManaged string
  | NotRegularTable string
  | NotIndex string
  | NoSuchRelation string

text \<open>\<^verbatim>\<open>relation_openrv\<close> followed by the check of the relkind the caller expects.\<close>

definition open_expecting ::
  "catalog \<Rightarrow> string \<Rightarrow> relkind \<Rightarrow> open_error + relation" where
  "open_expecting cat name kind =
     (case cat name of
        None \<Rightarrow> Inl (NoSuchRelation name)
      | Some r \<Rightarrow>
          if rel_relkind r \<noteq> kind
          then Inl (if kind = RELKIND_INDEX then NotIndex (rel_name r)
                    else NotRegularTable (rel_name r))
          else Inr r)"

definition cs_name :: "base_relation \<Rightarrow> string \<Rightarrow> string \<Rightarrow> string" where
  "cs_name b col suffix = base_schema b @ ''.'' @ base_name b @ ''.'' @ col @ suffix"

definition top_name :: "base_relation \<Rightarrow> string \<Rightarrow> string" where
  "top_name b suffix = base_schema b @ ''.'' @ base_name b @ suffix"

text \<open>
  The loop over the attributes, lines 102 to 132. The arguments are the attributes from
  position \<open>i\<close> on, the set built so far and the handles opened so far, oldest first.
\<close>

fun open_columns ::
  "catalog \<Rightarrow> base_relation \<Rightarrow> bool \<Rightarrow> pg_attribute list \<Rightarrow> nat \<Rightarrow>
   relation_set \<Rightarrow> relation list \<Rightarrow> open_error + (relation_set \<times> relation list)" where
  "open_columns cat b with_index [] i relset opened = Inr (relset, opened)"
| "open_columns cat b with_index (attr # attrs) i relset opened =
     (if attisdropped attr then open_columns cat b with_index attrs (i + 1) relset opened
      else
        (case open_expecting cat (cs_name b (attname attr) ''.cs'') RELKIND_RELATION of
           Inl e \<Rightarrow> Inl e
         | Inr r \<Rightarrow>
             let relset1 = relset\<lparr>cs_rel := (cs_rel relset)[i := Some r]\<rparr>;
                 opened1 = opened @ [r]
             in if with_index then
                  (case open_expecting cat (cs_name b (attname attr) ''.idx'') RELKIND_INDEX of
                     Inl e \<Rightarrow> Inl e
                   | Inr x \<Rightarrow>
                       open_columns cat b with_index attrs (i + 1)
                         (relset1\<lparr>cs_idx := (cs_idx relset1)[i := Some x]\<rparr>) (opened1 @ [x]))
                else open_columns cat b with_index attrs (i + 1) relset1 opened1))"

text \<open>
  \<^verbatim>\<open>pgstrom_open_relation_set\<close>. The result is the relation set together with the
  handles it opened, in the order of the \<^verbatim>\<open>relation_openrv\<close> calls. The sequence is
  only resolved to its identifier (\<^verbatim>\<open>RangeVarGetRelid\<close>), not opened.
\<close>

definition pgstrom_open_relation_set ::
  "catalog \<Rightarrow> base_relation \<Rightarrow> bool \<Rightarrow> open_error + (relation_set \<times> relation list)" where
  "pgstrom_open_relation_set cat b with_index =
     (if base_relkind b \<noteq> RELKIND_FOREIGN_TABLE then Inl (NotForeignTable (base_name b))
      else if \<not> base_managed b then Inl (NotManaged (base_name b))
      else
        let nattrs = length (base_attrs b);
            relset0 = \<lparr>base_rel = b, rowid_rel = None, rowid_idx = None,
                       cs_rel = replicate nattrs None, cs_idx = replicate nattrs None,
                       rowid_seqid = 0\<rparr>
        in case open_expecting cat (top_name b ''.rowid'') RELKIND_RELATION of
             Inl e \<Rightarrow> Inl e
           | Inr r \<Rightarrow>
               (case (if with_index
                      then (case open_expecting cat (top_name b ''.idx'') RELKIND_INDEX of
                              Inl e \<Rightarrow> Inl e
                            | Inr x \<Rightarrow> Inr (relset0\<lparr>rowid_rel := Some r, rowid_idx := Some x\<rparr>, [r, x]))
                      else Inr (relset0\<lparr>rowid_rel := Some r\<rparr>, [r])) of
                  Inl e \<Rightarrow> Inl e
                | Inr (relset1, opened1) \<Rightarrow>
                    (case open_columns cat b with_index (base_attrs b) 0 relset1 opened1 of
                       Inl e \<Rightarrow> Inl e
                     | Inr (relset2, opened2) \<Rightarrow>
                         (case cat (top_name b ''.seq'') of
                            None \<Rightarrow> Inl (NoSuchRelation (top_name b ''.seq''))
                          | Some q \<Rightarrow> Inr (relset2\<lparr>rowid_seqid := rel_oid q\<rparr>, opened2)))))"

text \<open>
  \<^verbatim>\<open>pgstrom_close_relation_set\<close>: the handles passed to \<^verbatim>\<open>relation_close\<close>, in the
  order of the calls. \<open>close_columns\<close> is the loop of lines 153 to 159 from position \<open>i\<close>.
\<close>

definition close_if :: "relation option \<Rightarrow> relation list" where
  "close_if h = (case h of None \<Rightarrow> [] | Some r \<Rightarrow> [r])"

definition close_columns :: "relation_set \<Rightarrow> nat \<Rightarrow> nat \<Rightarrow> relation list" where
  "close_columns relset i nattrs =
     concat (map (\<lambda>j. close_if (cs_rel relset ! j) @ close_if (cs_idx relset ! j)) [i..<nattrs])"

definition pgstrom_close_relation_set :: "relation_set \<Rightarrow> relation list" where
  "pgstrom_close_relation_set relset =
     (let nattrs = length (base_attrs (base_rel relset))
      in close_if (rowid_rel relset) @ close_if (rowid_idx relset) @ close_columns relset 0 nattrs)"


section \<open>Storage: arrays, the row map, index scans\<close>

type_synonym datum = int

text \<open>
  A one-dimensional PostgreSQL array of fixed-width elements with lower bound 0, as the
  source reads it: \<^verbatim>\<open>ARR_DIMS(a)[0]\<close>, \<^verbatim>\<open>ARR_NULLBITMAP(a)\<close> (absent when the array has
  no bitmap; a set bit marks an element that is \<^emph>\<open>not\<close> null) and the data area at
  \<^verbatim>\<open>ARR_DATA_PTR(a)\<close>, which holds the elements that are not null, one after the other.
\<close>

record array_type =
  arr_nitems :: nat
  arr_nullbitmap :: "8 word list option"
  arr_data :: "datum list"

definition array_get_isnull :: "8 word list option \<Rightarrow> nat \<Rightarrow> bool" where
  "array_get_isnull nullbitmap offset =
     (case nullbitmap of
        None \<Rightarrow> False
      | Some bm \<Rightarrow> (bm ! (offset div 8)) AND push_bit (offset mod 8) 1 = 0)"

definition array_seek :: "8 word list option \<Rightarrow> nat \<Rightarrow> nat" where
  "array_seek nullbitmap n =
     length (filter (\<lambda>i. \<not> array_get_isnull nullbitmap i) [0..<n])"

text \<open>
  \<^verbatim>\<open>array_ref\<close> is PostgreSQL's: a subscript outside the array gives null, an element
  whose bitmap bit is clear gives null, and any other element is read from the data area
  after the elements before it that are not null.
\<close>

definition array_ref :: "array_type \<Rightarrow> int \<Rightarrow> datum \<times> bool" where
  "array_ref a indx =
     (if indx < 0 \<or> int (arr_nitems a) \<le> indx then (0, True)
      else if array_get_isnull (arr_nullbitmap a) (nat indx) then (0, True)
      else (arr_data a ! array_seek (arr_nullbitmap a) (nat indx), False))"

text \<open>A tuple of a column store: the first row identifier and the array of values.\<close>

type_synonym cs_tuple = "int \<times> array_type"

text \<open>A bit string: \<^verbatim>\<open>VARBITLEN\<close> is its length in bits, \<^verbatim>\<open>VARBITS\<close> its bytes.\<close>

record varbit =
  VARBITLEN :: nat
  VARBITS :: "8 word list"

text \<open>
  Index scans over a column store, keyed on the row identifier. A scan holds the keys of
  the last \<^verbatim>\<open>index_rescan\<close> and its position among the tuples that satisfy them, in
  index order; \<open>None\<close> is the position before the first fetch.
\<close>

datatype strategy =
  BTLessStrategy | BTLessEqualStrategy | BTGreaterEqualStrategy | BTGreaterStrategy

datatype scan_direction = ForwardScanDirection | BackwardScanDirection

type_synonym scan_key = "strategy \<times> int"

fun key_holds :: "scan_key \<Rightarrow> int \<Rightarrow> bool" where
  "key_holds (BTLessStrategy, k) v = (v < k)"
| "key_holds (BTLessEqualStrategy, k) v = (v \<le> k)"
| "key_holds (BTGreaterEqualStrategy, k) v = (k \<le> v)"
| "key_holds (BTGreaterStrategy, k) v = (k < v)"

definition index_qualifying :: "cs_tuple list \<Rightarrow> scan_key list \<Rightarrow> cs_tuple list" where
  "index_qualifying rel keys =
     sort_key fst (filter (\<lambda>t. list_all (\<lambda>k. key_holds k (fst t)) keys) rel)"

record index_scan =
  is_keys :: "scan_key list"
  is_pos :: "int option"

definition index_rescan :: "index_scan \<Rightarrow> scan_key list \<Rightarrow> index_scan" where
  "index_rescan scan keys = scan\<lparr>is_keys := keys, is_pos := None\<rparr>"

definition index_getnext ::
  "cs_tuple list \<Rightarrow> index_scan \<Rightarrow> scan_direction \<Rightarrow> cs_tuple option \<times> index_scan" where
  "index_getnext rel scan dir =
     (let quals = index_qualifying rel (is_keys scan);
          p = (case dir of
                 ForwardScanDirection \<Rightarrow> (case is_pos scan of None \<Rightarrow> 0 | Some q \<Rightarrow> q + 1)
               | BackwardScanDirection \<Rightarrow>
                   (case is_pos scan of None \<Rightarrow> int (length quals) - 1 | Some q \<Rightarrow> q - 1))
      in if 0 \<le> p \<and> p < int (length quals)
         then (Some (quals ! nat p), scan\<lparr>is_pos := Some p\<rparr>)
         else (None, scan\<lparr>is_pos := Some p\<rparr>))"

section \<open>Chunks and the scan state\<close>

text \<open>
  Conventions. Row identifiers and datums are unbounded integers: no claim made here
  depends on 64-bit overflow. The one place where the source narrows a row identifier,
  the 32-bit subscript of the cached array, is modelled with its wrap-around (\<open>int32\<close>).
  \<^verbatim>\<open>Assert\<close> is not modelled; it is compiled out of a production
  build. An array indexed by column (\<^verbatim>\<open>cs_scan\<close>, \<^verbatim>\<open>cs_cur_values\<close>, \<^verbatim>\<open>cs_values\<close>, the
  slot's \<^verbatim>\<open>tts_values\<close>, ...) is a function on the column index, so a write at an index is
  a write to that entry whatever the allocated length; a datum stands for the
  \<^verbatim>\<open>attlen\<close> bytes of one fixed-width value. Every column has an index scan in the
  state; \<^verbatim>\<open>pgstrom_begin_foreign_scan\<close> opens the scans of the required columns that are
  not clause columns, and only those are looked up lazily when clause columns are loaded.
\<close>

text \<open>
  \<^verbatim>\<open>PgStromChunkBuf\<close>. The two pointer arrays are indexed by column; a buffer is the
  memory behind the pointer, indexed by element (\<open>cs_values\<close>) or by byte (\<open>cs_nulls\<close>).
  A buffer's contents beyond its allocated size stand for the memory behind it.
\<close>

record chunk_buf =
  nattrs :: nat
  rowid :: int
  rowmap :: varbit
  cs_nulls :: "nat \<Rightarrow> (nat \<Rightarrow> 8 word) option"
  cs_values :: "nat \<Rightarrow> (nat \<Rightarrow> datum) option"

datatype storage_call =
  HeapGetNext | IndexBeginScan nat | IndexRescan nat | IndexGetNext nat | IndexEndScan nat

text \<open>
  \<^verbatim>\<open>PgStromExecState\<close>. \<open>cs_tuples\<close> is the contents of the column stores
  (\<^verbatim>\<open>relset->cs_rel\<close>) under the scan's snapshot, \<open>ri_scan\<close> the tuples the scan of the
  row map has not returned yet, \<open>chunks\<close> the chunk buffers allocated so far (the address
  of a chunk is its position), and \<open>accesses\<close> the calls made to the storage layer,
  oldest first. The three lists hold chunk addresses; \<open>curr_chunk\<close> is a position in
  the ready list, \<open>None\<close> for the null pointer.
\<close>

record exec_state =
  predictable :: int
  required_cols :: "nat set"
  clause_cols :: "nat set"
  cs_tuples :: "nat \<Rightarrow> cs_tuple list"
  ri_scan :: "(int \<times> varbit) list"
  cs_scan :: "nat \<Rightarrow> index_scan"
  cs_cur_values :: "nat \<Rightarrow> array_type option"
  cs_cur_rowid_min :: "nat \<Rightarrow> int"
  cs_cur_rowid_max :: "nat \<Rightarrow> int"
  chunks :: "chunk_buf list"
  chunk_exec_pending_list :: "nat list"
  chunk_exec_list :: "nat list"
  chunk_ready_list :: "nat list"
  curr_chunk :: "nat option"
  curr_index :: nat
  accesses :: "storage_call list"

text \<open>
  What the functions read from outside the state: the setting
  \<^verbatim>\<open>pgstrom_max_async_chunks\<close>, the constant \<^verbatim>\<open>PGSTROM_CHUNK_SIZE\<close> of
  \<^verbatim>\<open>pg_strom.h\<close>, and the number of attributes of the row map's tuple descriptor,
  \<^verbatim>\<open>RelationGetDescr(relset->rowid_rel)->natts\<close>, which is what
  \<^verbatim>\<open>pgstrom_load_chunk_buffer\<close> stores as the chunk's \<open>nattrs\<close>. The row map's tuples are
  deformed into arrays of two elements (the row identifier and the bit string).
\<close>

record scan_env =
  pgstrom_max_async_chunks :: int
  PGSTROM_CHUNK_SIZE :: nat
  rowid_natts :: nat

record tuple_slot =
  tts_isempty :: bool
  tts_values :: "nat \<Rightarrow> datum"
  tts_isnull :: "nat \<Rightarrow> bool"

definition ExecClearTuple :: "tuple_slot \<Rightarrow> tuple_slot" where
  "ExecClearTuple slot = slot\<lparr>tts_isempty := True\<rparr>"

definition ExecStoreVirtualTuple :: "tuple_slot \<Rightarrow> tuple_slot" where
  "ExecStoreVirtualTuple slot = slot\<lparr>tts_isempty := False\<rparr>"

definition set_column :: "tuple_slot \<Rightarrow> nat \<Rightarrow> datum \<times> bool \<Rightarrow> tuple_slot" where
  "set_column slot csidx vn =
     slot\<lparr>tts_values := (tts_values slot)(csidx := fst vn),
          tts_isnull := (tts_isnull slot)(csidx := snd vn)\<rparr>"

text \<open>The state at the end of \<^verbatim>\<open>pgstrom_init_exec_state\<close> (label \<^verbatim>\<open>skip_opencl\<close>), with
  the scans opened by \<^verbatim>\<open>pgstrom_begin_foreign_scan\<close>.\<close>

definition fresh_exec_state ::
  "int \<Rightarrow> nat set \<Rightarrow> nat set \<Rightarrow> (nat \<Rightarrow> cs_tuple list) \<Rightarrow> (int \<times> varbit) list \<Rightarrow> exec_state" where
  "fresh_exec_state p required clause stores ri =
     \<lparr>predictable = p, required_cols = required, clause_cols = clause,
      cs_tuples = stores, ri_scan = ri,
      cs_scan = (\<lambda>_. \<lparr>is_keys = [], is_pos = None\<rparr>),
      cs_cur_values = (\<lambda>_. None),
      cs_cur_rowid_min = (\<lambda>_. 0), cs_cur_rowid_max = (\<lambda>_. 0),
      chunks = [], chunk_exec_pending_list = [], chunk_exec_list = [],
      chunk_ready_list = [], curr_chunk = None, curr_index = 0, accesses = []\<rparr>"

section \<open>Eager loading: \<^verbatim>\<open>pgstrom_load_column_store\<close> and \<^verbatim>\<open>pgstrom_load_chunk_buffer\<close>\<close>

text \<open>The two \<^verbatim>\<open>memcpy\<close> calls of lines 309 to 315.\<close>

definition copy_values :: "(nat \<Rightarrow> datum) \<Rightarrow> nat \<Rightarrow> array_type \<Rightarrow> nat \<Rightarrow> datum" where
  "copy_values buf offset a =
     (\<lambda>i. if offset \<le> i \<and> i < offset + arr_nitems a then arr_data a ! (i - offset) else buf i)"

definition copy_nulls :: "(nat \<Rightarrow> 8 word) \<Rightarrow> nat \<Rightarrow> nat \<Rightarrow> 8 word list \<Rightarrow> nat \<Rightarrow> 8 word" where
  "copy_nulls buf offset nitems bm =
     (\<lambda>b. if offset div 8 \<le> b \<and> b < offset div 8 + (nitems + 7) div 8
          then bm ! (b - offset div 8) else buf b)"

text \<open>The body of the loop over the tuples of the range scan, lines 282 to 315.\<close>

definition load_tuple :: "nat \<Rightarrow> chunk_buf \<Rightarrow> cs_tuple \<Rightarrow> chunk_buf" where
  "load_tuple csidx chunk tup =
     (let cur_rowid = fst tup;
          cur_array = snd tup;
          offset = nat (cur_rowid - rowid chunk);
          nullbitmap = arr_nullbitmap cur_array;
          chunk1 = (if nullbitmap \<noteq> None \<and> cs_nulls chunk csidx = None
                    then chunk\<lparr>cs_nulls := (cs_nulls chunk)(csidx := Some (\<lambda>_. 0))\<rparr>
                    else chunk);
          nitems = arr_nitems cur_array;
          chunk2 = chunk1\<lparr>cs_values := (cs_values chunk1)
                     (csidx := map_option (\<lambda>buf. copy_values buf offset cur_array)
                                 (cs_values chunk1 csidx))\<rparr>
      in case nullbitmap of
           None \<Rightarrow> chunk2
         | Some bm \<Rightarrow>
             chunk2\<lparr>cs_nulls := (cs_nulls chunk2)
               (csidx := map_option (\<lambda>buf. copy_nulls buf offset nitems bm)
                           (cs_nulls chunk2 csidx))\<rparr>)"

definition pgstrom_load_column_store ::
  "scan_env \<Rightarrow> exec_state \<Rightarrow> chunk_buf \<Rightarrow> nat \<Rightarrow> exec_state \<times> chunk_buf" where
  "pgstrom_load_column_store env s chunk attnum =
     (let csidx = attnum - 1;
          chunk1 = chunk\<lparr>cs_values := (cs_values chunk)(csidx := Some (\<lambda>_. 0))\<rparr>;
          skeys = [(BTGreaterEqualStrategy, rowid chunk),
                   (BTLessStrategy, rowid chunk + int (PGSTROM_CHUNK_SIZE env))];
          tups = index_qualifying (cs_tuples s csidx) skeys;
          chunk2 = foldl (load_tuple csidx) chunk1 tups;
          found = (tups \<noteq> []);
          chunk3 = (if found then chunk2
                    else chunk2\<lparr>cs_nulls := (cs_nulls chunk2)
                           (csidx := Some (\<lambda>b. if b < PGSTROM_CHUNK_SIZE env div 8
                                                then - 1 else 0))\<rparr>)
      in (s\<lparr>accesses := accesses s @ [IndexBeginScan csidx, IndexRescan csidx]
               @ replicate (length tups + 1) (IndexGetNext csidx) @ [IndexEndScan csidx]\<rparr>,
          chunk3))"

text \<open>
  The loop \<^verbatim>\<open>while ((attnum = bms_first_member(temp)) > 0)\<close>: the members in ascending
  order, up to the first one that is not positive.
\<close>

fun load_clause_cols ::
  "scan_env \<Rightarrow> nat list \<Rightarrow> exec_state \<Rightarrow> chunk_buf \<Rightarrow> exec_state \<times> chunk_buf" where
  "load_clause_cols env [] s chunk = (s, chunk)"
| "load_clause_cols env (attnum # rest) s chunk =
     (if 0 < attnum
      then (case pgstrom_load_column_store env s chunk attnum of
              (s1, chunk1) \<Rightarrow> load_clause_cols env rest s1 chunk1)
      else (s, chunk))"

text \<open>
  \<^verbatim>\<open>pgstrom_load_chunk_buffer\<close>: the loop runs at most \<open>n\<close> more times; the result is
  the number of chunks loaded and the new state. Both branches on \<open>predictable\<close> append
  the new chunk to the ready list.
\<close>

fun load_chunk_loop :: "scan_env \<Rightarrow> nat \<Rightarrow> exec_state \<Rightarrow> nat \<times> exec_state" where
  "load_chunk_loop env 0 s = (0, s)"
| "load_chunk_loop env (Suc n) s =
     (case ri_scan s of
        [] \<Rightarrow> (0, s\<lparr>accesses := accesses s @ [HeapGetNext]\<rparr>)
      | tuple # rest \<Rightarrow>
          (let s1 = s\<lparr>ri_scan := rest, accesses := accesses s @ [HeapGetNext]\<rparr>;
               chunk = \<lparr>nattrs = rowid_natts env, rowid = fst tuple, rowmap = snd tuple,
                        cs_nulls = (\<lambda>_. None), cs_values = (\<lambda>_. None)\<rparr>;
               sc = (if predictable s1 = 0
                     then load_clause_cols env (sorted_list_of_set (clause_cols s1)) s1 chunk
                     else (s1, chunk));
               s2 = fst sc;
               s3 = (if predictable s1 = 0
                     then s2\<lparr>chunks := chunks s2 @ [snd sc],
                             chunk_ready_list := chunk_ready_list s2 @ [length (chunks s2)]\<rparr>
                     else s2\<lparr>chunks := chunks s2 @ [snd sc],
                             chunk_ready_list := chunk_ready_list s2 @ [length (chunks s2)]\<rparr>);
               r = load_chunk_loop env n s3
           in (Suc (fst r), snd r)))"

definition pgstrom_load_chunk_buffer :: "scan_env \<Rightarrow> exec_state \<Rightarrow> int \<Rightarrow> nat \<times> exec_state" where
  "pgstrom_load_chunk_buffer env s num_chunks = load_chunk_loop env (nat num_chunks) s"


section \<open>Lazy lookup: \<^verbatim>\<open>pgstrom_scan_column_store\<close>\<close>

text \<open>A fetch on the scan of column \<open>csidx\<close> held in the state.\<close>

definition cs_getnext ::
  "exec_state \<Rightarrow> nat \<Rightarrow> scan_direction \<Rightarrow> cs_tuple option \<times> exec_state" where
  "cs_getnext s csidx dir =
     (case index_getnext (cs_tuples s csidx) (cs_scan s csidx) dir of
        (tup, scan1) \<Rightarrow>
          (tup, s\<lparr>cs_scan := (cs_scan s)(csidx := scan1),
                  accesses := accesses s @ [IndexGetNext csidx]\<rparr>))"

definition cs_rescan :: "exec_state \<Rightarrow> nat \<Rightarrow> scan_key \<Rightarrow> exec_state" where
  "cs_rescan s csidx skey =
     s\<lparr>cs_scan := (cs_scan s)(csidx := index_rescan (cs_scan s csidx) [skey]),
       accesses := accesses s @ [IndexRescan csidx]\<rparr>"

definition set_cache :: "exec_state \<Rightarrow> nat \<Rightarrow> cs_tuple \<Rightarrow> exec_state" where
  "set_cache s csidx tup =
     s\<lparr>cs_cur_values := (cs_cur_values s)(csidx := Some (snd tup)),
       cs_cur_rowid_min := (cs_cur_rowid_min s)(csidx := fst tup),
       cs_cur_rowid_max := (cs_cur_rowid_max s)(csidx := fst tup + int (arr_nitems (snd tup)))\<rparr>"

text \<open>
  The loop \<^verbatim>\<open>while (count-- > 0)\<close> of the heuristic, lines 437 to 470, with \<open>count\<close>
  fetches left. The result says whether a fetched tuple was taken as a hit.
\<close>

fun forward_probe :: "exec_state \<Rightarrow> nat \<Rightarrow> int \<Rightarrow> nat \<Rightarrow> bool \<times> exec_state" where
  "forward_probe s csidx rid 0 = (False, s)"
| "forward_probe s csidx rid (Suc count) =
     (case cs_getnext s csidx ForwardScanDirection of
        (None, s1) \<Rightarrow> (False, s1)
      | (Some tup, s1) \<Rightarrow>
          if fst tup \<le> rid \<and> rid \<le> fst tup + int (arr_nitems (snd tup))
          then (True, set_cache s1 csidx tup)
          else forward_probe s1 csidx rid count)"

text \<open>
  The subscript of the element is held in a C \<^verbatim>\<open>int\<close>: the difference of the two row
  identifiers is reduced to 32 bits, two's complement.
\<close>

definition int32 :: "int \<Rightarrow> int" where
  "int32 x = signed_take_bit 31 x"

lemma int32_small: "- (2 ^ 31) \<le> x \<Longrightarrow> x < 2 ^ 31 \<Longrightarrow> int32 x = x"
  by (simp add: int32_def signed_take_bit_int_eq_self)

text \<open>The code at the label \<^verbatim>\<open>out\<close>: the element of the cached array is stored in the slot.\<close>

definition fetch_out :: "exec_state \<Rightarrow> nat \<Rightarrow> int \<Rightarrow> tuple_slot \<Rightarrow> tuple_slot" where
  "fetch_out s csidx rid slot =
     (case cs_cur_values s csidx of
        None \<Rightarrow> slot
      | Some a \<Rightarrow>
          set_column slot csidx (array_ref a (int32 (rid - cs_cur_rowid_min s csidx))))"

text \<open>The rewind of lines 473 to 525: the cache is dropped and the index is searched.\<close>

definition full_seek :: "exec_state \<Rightarrow> nat \<Rightarrow> int \<Rightarrow> tuple_slot \<Rightarrow> tuple_slot \<times> exec_state" where
  "full_seek s csidx rid slot =
     (let s1 = (if cs_cur_values s csidx = None then s
                else s\<lparr>cs_cur_values := (cs_cur_values s)(csidx := None),
                       cs_cur_rowid_min := (cs_cur_rowid_min s)(csidx := - 1),
                       cs_cur_rowid_max := (cs_cur_rowid_max s)(csidx := - 1)\<rparr>);
          s2 = cs_rescan s1 csidx (BTLessEqualStrategy, rid)
      in case cs_getnext s2 csidx BackwardScanDirection of
           (None, s3) \<Rightarrow> (set_column slot csidx (0, True), s3)
         | (Some tup, s3) \<Rightarrow>
             (let s4 = set_cache s3 csidx tup;
                  s5 = cs_rescan s4 csidx (BTGreaterStrategy, cs_cur_rowid_max s4 csidx)
              in (fetch_out s5 csidx rid slot, s5)))"

definition pgstrom_scan_column_store ::
  "exec_state \<Rightarrow> nat \<Rightarrow> int \<Rightarrow> tuple_slot \<Rightarrow> tuple_slot \<times> exec_state" where
  "pgstrom_scan_column_store s csidx rid slot =
     (if cs_cur_values s csidx = None
         \<or> rid < cs_cur_rowid_min s csidx
         \<or> cs_cur_rowid_max s csidx < rid
      then
        (case (if cs_cur_values s csidx \<noteq> None
                  \<and> cs_cur_rowid_max s csidx < rid
                  \<and> rid < cs_cur_rowid_max s csidx
                          + 2 * (cs_cur_rowid_max s csidx - cs_cur_rowid_min s csidx)
               then forward_probe s csidx rid 2
               else (False, s)) of
           (True, s1) \<Rightarrow> (fetch_out s1 csidx rid slot, s1)
         | (False, s1) \<Rightarrow> full_seek s1 csidx rid slot)
      else (fetch_out s csidx rid slot, s))"

section \<open>The row iterator: \<^verbatim>\<open>pgstrom_scan_chunk_buffer\<close> and \<^verbatim>\<open>pgstrom_iterate_foreign_scan\<close>\<close>

text \<open>
  The walk over the row map, lines 546 to 556: the first position from \<open>index\<close> on whose
  bit is set in its byte, \<open>None\<close> when the walk reaches the end of the row map.
\<close>

function scan_rowmap :: "varbit \<Rightarrow> nat \<Rightarrow> nat option" where
  "scan_rowmap rm index =
     (if index < VARBITLEN rm
      then (if (VARBITS rm ! (index div 8)) AND push_bit (index mod 8) 1 = 0
            then scan_rowmap rm (index + 1)
            else Some index)
      else None)"
  by pat_completeness auto
termination
  by (relation "measure (\<lambda>(rm, index). VARBITLEN rm - index)") auto

declare scan_rowmap.simps [simp del]

text \<open>A column that was loaded into the chunk is read from its buffers, lines 576 to 594.\<close>

definition chunk_fetch :: "chunk_buf \<Rightarrow> nat \<Rightarrow> (nat \<Rightarrow> datum) \<Rightarrow> nat \<Rightarrow> datum \<times> bool" where
  "chunk_fetch chunk csidx vals index =
     (if cs_nulls chunk csidx = None
         \<or> the (cs_nulls chunk csidx) (index div 8) AND push_bit (index mod 8) 1 = 0
      then (vals index, False)
      else (0, True))"

text \<open>The loop over the columns, lines 559 to 601, for the columns still to be visited.\<close>

fun scan_columns ::
  "exec_state \<Rightarrow> chunk_buf \<Rightarrow> nat \<Rightarrow> nat list \<Rightarrow> tuple_slot \<Rightarrow> tuple_slot \<times> exec_state" where
  "scan_columns s chunk index [] slot = (slot, s)"
| "scan_columns s chunk index (csidx # rest) slot =
     (if csidx + 1 \<notin> required_cols s
      then scan_columns s chunk index rest (set_column slot csidx (0, True))
      else
        (case cs_values chunk csidx of
           Some vals \<Rightarrow>
             scan_columns s chunk index rest
               (set_column slot csidx (chunk_fetch chunk csidx vals index))
         | None \<Rightarrow>
             (case pgstrom_scan_column_store s csidx (rowid chunk + int index) slot of
                (slot1, s1) \<Rightarrow> scan_columns s1 chunk index rest slot1)))"

text \<open>
  \<^verbatim>\<open>pgstrom_scan_chunk_buffer\<close> on the chunk at position \<open>pos\<close> of the ready list, which is
  what \<^verbatim>\<open>lfirst(sestate->curr_chunk)\<close> reads. The function reads \<open>curr_index\<close> and never
  assigns it.
\<close>

definition pgstrom_scan_chunk_buffer ::
  "exec_state \<Rightarrow> nat \<Rightarrow> tuple_slot \<Rightarrow> bool \<times> tuple_slot \<times> exec_state" where
  "pgstrom_scan_chunk_buffer s pos slot =
     (let chunk = chunks s ! (chunk_ready_list s ! pos)
      in case scan_rowmap (rowmap chunk) (curr_index s) of
           None \<Rightarrow> (False, slot, s)
         | Some index \<Rightarrow>
             (case scan_columns s chunk index [0..<nattrs chunk] slot of
                (slot1, s1) \<Rightarrow> (True, ExecStoreVirtualTuple slot1, s1)))"


subsection \<open>What the lookups and the loader leave unchanged\<close>

text \<open>The fields a lookup in a column store never writes.\<close>

definition pipeline_frame ::
  "exec_state \<Rightarrow> int \<times> nat set \<times> nat set \<times> (nat \<Rightarrow> cs_tuple list) \<times> (int \<times> varbit) list
     \<times> chunk_buf list \<times> nat list \<times> nat list \<times> nat list \<times> nat option \<times> nat" where
  "pipeline_frame s =
     (predictable s, required_cols s, clause_cols s, cs_tuples s, ri_scan s, chunks s,
      chunk_exec_pending_list s, chunk_exec_list s, chunk_ready_list s, curr_chunk s,
      curr_index s)"

lemma frame_cs_getnext: "pipeline_frame (snd (cs_getnext s csidx dir)) = pipeline_frame s"
  by (simp add: cs_getnext_def pipeline_frame_def split: prod.splits)

lemma frame_cs_rescan: "pipeline_frame (cs_rescan s csidx k) = pipeline_frame s"
  by (simp add: cs_rescan_def pipeline_frame_def)

lemma frame_set_cache: "pipeline_frame (set_cache s csidx t) = pipeline_frame s"
  by (simp add: set_cache_def pipeline_frame_def)

lemma frame_forward_probe:
  "pipeline_frame (snd (forward_probe s csidx rid count)) = pipeline_frame s"
proof (induction count arbitrary: s)
  case 0
  show ?case by simp
next
  case (Suc count)
  obtain tup s1 where g: "cs_getnext s csidx ForwardScanDirection = (tup, s1)"
    by (cases "cs_getnext s csidx ForwardScanDirection")
  have f1: "pipeline_frame s1 = pipeline_frame s"
    using frame_cs_getnext [of s csidx ForwardScanDirection] g by simp
  show ?case
  proof (cases tup)
    case None
    with g f1 show ?thesis by simp
  next
    case (Some t)
    with g f1 Suc.IH [of s1] show ?thesis
      by (simp add: frame_set_cache)
  qed
qed

lemma frame_full_seek: "pipeline_frame (snd (full_seek s csidx rid slot)) = pipeline_frame s"
proof -
  define s1 where "s1 = (if cs_cur_values s csidx = None then s
                else s\<lparr>cs_cur_values := (cs_cur_values s)(csidx := None),
                       cs_cur_rowid_min := (cs_cur_rowid_min s)(csidx := - 1),
                       cs_cur_rowid_max := (cs_cur_rowid_max s)(csidx := - 1)\<rparr>)"
  have a: "pipeline_frame s1 = pipeline_frame s"
    by (simp add: s1_def pipeline_frame_def)
  define s2 where "s2 = cs_rescan s1 csidx (BTLessEqualStrategy, rid)"
  have b: "pipeline_frame s2 = pipeline_frame s"
    by (simp add: s2_def frame_cs_rescan a)
  obtain tup s3 where g: "cs_getnext s2 csidx BackwardScanDirection = (tup, s3)"
    by (cases "cs_getnext s2 csidx BackwardScanDirection")
  have c: "pipeline_frame s3 = pipeline_frame s"
    using frame_cs_getnext [of s2 csidx BackwardScanDirection] g b by simp
  show ?thesis
    using g c
    by (cases tup)
       (simp_all add: full_seek_def Let_def s1_def [symmetric] s2_def [symmetric]
          frame_cs_rescan frame_set_cache)
qed

lemma frame_scan_column_store:
  "pipeline_frame (snd (pgstrom_scan_column_store s csidx rid slot)) = pipeline_frame s"
proof -
  obtain h s1 where p: "forward_probe s csidx rid 2 = (h, s1)"
    by (cases "forward_probe s csidx rid 2")
  have "pipeline_frame s1 = pipeline_frame s"
    using frame_forward_probe [of s csidx rid 2] p by simp
  then show ?thesis
    using p frame_full_seek [of s1 csidx rid slot] frame_full_seek [of s csidx rid slot]
    by (cases h) (simp_all add: pgstrom_scan_column_store_def)
qed

lemma frame_scan_columns:
  "pipeline_frame (snd (scan_columns s chunk index cols slot)) = pipeline_frame s"
proof (induction cols arbitrary: s slot)
  case Nil
  show ?case by simp
next
  case (Cons csidx rest)
  obtain slot1 s1 where l: "pgstrom_scan_column_store s csidx (rowid chunk + int index) slot = (slot1, s1)"
    by (cases "pgstrom_scan_column_store s csidx (rowid chunk + int index) slot")
  have f: "pipeline_frame s1 = pipeline_frame s"
    using frame_scan_column_store [of s csidx "rowid chunk + int index" slot] l by simp
  have r: "required_cols s1 = required_cols s"
    using f by (simp add: pipeline_frame_def)
  show ?case
    using Cons.IH l f by (simp split: option.splits)
qed

lemma frame_scan_chunk_buffer:
  "pipeline_frame (snd (snd (pgstrom_scan_chunk_buffer s pos slot))) = pipeline_frame s"
proof (cases "scan_rowmap (rowmap (chunks s ! (chunk_ready_list s ! pos))) (curr_index s)")
  case None
  then show ?thesis by (simp add: pgstrom_scan_chunk_buffer_def)
next
  case (Some index)
  define chunk where "chunk = chunks s ! (chunk_ready_list s ! pos)"
  obtain slot1 s1 where c: "scan_columns s chunk index [0..<nattrs chunk] slot = (slot1, s1)"
    by (cases "scan_columns s chunk index [0..<nattrs chunk] slot")
  have "pipeline_frame s1 = pipeline_frame s"
    using frame_scan_columns [of s chunk index "[0..<nattrs chunk]" slot] c by simp
  with Some c show ?thesis
    by (simp add: pgstrom_scan_chunk_buffer_def chunk_def [symmetric])
qed


lemma load_column_store_state:
  "\<exists>l. fst (pgstrom_load_column_store env s chunk attnum) = s\<lparr>accesses := l\<rparr>"
  unfolding pgstrom_load_column_store_def Let_def fst_conv
  by (rule exI) (rule refl)

lemma load_clause_cols_state:
  "\<exists>l. fst (load_clause_cols env cols s chunk) = s\<lparr>accesses := l\<rparr>"
proof (induction cols arbitrary: s chunk)
  case Nil
  have "s = s\<lparr>accesses := accesses s\<rparr>" by simp
  then show ?case by (metis load_clause_cols.simps(1) fst_conv)
next
  case (Cons attnum rest)
  show ?case
  proof (cases "0 < attnum")
    case False
    have "s = s\<lparr>accesses := accesses s\<rparr>" by simp
    with False show ?thesis by (metis load_clause_cols.simps(2) fst_conv)
  next
    case True
    obtain s1 chunk1 where l: "pgstrom_load_column_store env s chunk attnum = (s1, chunk1)"
      by (cases "pgstrom_load_column_store env s chunk attnum")
    obtain l1 where a: "s1 = s\<lparr>accesses := l1\<rparr>"
      using load_column_store_state [of env s chunk attnum] l by auto
    obtain l2 where b: "fst (load_clause_cols env rest s1 chunk1) = s1\<lparr>accesses := l2\<rparr>"
      using Cons.IH by blast
    have "fst (load_clause_cols env (attnum # rest) s chunk) = s\<lparr>accesses := l2\<rparr>"
      using True l a b by simp
    then show ?thesis by blast
  qed
qed

text \<open>What loading leaves as it was, and what it moves from the row map to the ready list.\<close>

definition loader_frame ::
  "exec_state \<Rightarrow> int \<times> nat set \<times> nat set \<times> (nat \<Rightarrow> cs_tuple list) \<times> (nat \<Rightarrow> index_scan)
     \<times> (nat \<Rightarrow> array_type option) \<times> (nat \<Rightarrow> int) \<times> (nat \<Rightarrow> int) \<times> nat list \<times> nat list
     \<times> nat option \<times> nat" where
  "loader_frame s =
     (predictable s, required_cols s, clause_cols s, cs_tuples s, cs_scan s, cs_cur_values s,
      cs_cur_rowid_min s, cs_cur_rowid_max s, chunk_exec_pending_list s, chunk_exec_list s,
      curr_chunk s, curr_index s)"



lemma load_chunk_loop_step:
  assumes "ri_scan s = tuple # rest"
  shows "\<exists>s3. load_chunk_loop env (Suc n) s =
            (Suc (fst (load_chunk_loop env n s3)), snd (load_chunk_loop env n s3))
          \<and> ri_scan s3 = rest
          \<and> length (chunks s3) = Suc (length (chunks s))
          \<and> chunk_ready_list s3 = chunk_ready_list s @ [length (chunks s)]
          \<and> loader_frame s3 = loader_frame s"
proof -
  define s1 where "s1 = s\<lparr>ri_scan := rest, accesses := accesses s @ [HeapGetNext]\<rparr>"
  define chunk where "chunk = \<lparr>nattrs = rowid_natts env, rowid = fst tuple, rowmap = snd tuple,
                      cs_nulls = (\<lambda>_. None), cs_values = (\<lambda>_. None)\<rparr>"
  define sc where "sc = (if predictable s1 = 0
                   then load_clause_cols env (sorted_list_of_set (clause_cols s1)) s1 chunk
                   else (s1, chunk))"
  obtain l where a: "fst sc = s1\<lparr>accesses := l\<rparr>"
  proof (cases "predictable s1 = 0")
    case True
    then show ?thesis
      using load_clause_cols_state [of env "sorted_list_of_set (clause_cols s1)" s1 chunk] that
      by (auto simp: sc_def)
  next
    case False
    have "s1 = s1\<lparr>accesses := accesses s1\<rparr>" by simp
    with False that show ?thesis by (metis sc_def fst_conv)
  qed
  define s3 where "s3 = (fst sc)\<lparr>chunks := chunks (fst sc) @ [snd sc],
                           chunk_ready_list := chunk_ready_list (fst sc) @ [length (chunks (fst sc))]\<rparr>"
  have "load_chunk_loop env (Suc n) s =
          (Suc (fst (load_chunk_loop env n s3)), snd (load_chunk_loop env n s3))"
    using assms by (simp add: Let_def s3_def sc_def chunk_def s1_def)
  moreover have "ri_scan s3 = rest" by (simp add: s3_def a s1_def)
  moreover have "length (chunks s3) = Suc (length (chunks s))" by (simp add: s3_def a s1_def)
  moreover have "chunk_ready_list s3 = chunk_ready_list s @ [length (chunks s)]"
    by (simp add: s3_def a s1_def)
  moreover have "loader_frame s3 = loader_frame s"
    by (simp add: s3_def a s1_def loader_frame_def)
  ultimately show ?thesis by blast
qed

lemma load_chunk_loop_lists:
  "fst (load_chunk_loop env n s) = min n (length (ri_scan s))
   \<and> ri_scan (snd (load_chunk_loop env n s)) = drop (min n (length (ri_scan s))) (ri_scan s)
   \<and> length (chunks (snd (load_chunk_loop env n s)))
       = length (chunks s) + min n (length (ri_scan s))
   \<and> chunk_ready_list (snd (load_chunk_loop env n s))
       = chunk_ready_list s
         @ [length (chunks s)..<length (chunks s) + min n (length (ri_scan s))]"
proof (induction n arbitrary: s)
  case 0
  show ?case by simp
next
  case (Suc n)
  show ?case
  proof (cases "ri_scan s")
    case Nil
    then show ?thesis by simp
  next
    case (Cons tuple rest)
    obtain s3 where
      e: "load_chunk_loop env (Suc n) s =
            (Suc (fst (load_chunk_loop env n s3)), snd (load_chunk_loop env n s3))"
      and r: "ri_scan s3 = rest"
      and c: "length (chunks s3) = Suc (length (chunks s))"
      and l: "chunk_ready_list s3 = chunk_ready_list s @ [length (chunks s)]"
      using load_chunk_loop_step [OF Cons, of env n] by blast
    have m: "min (Suc n) (length (ri_scan s)) = Suc (min n (length rest))"
      using Cons by simp
    have u: "[length (chunks s)..<length (chunks s) + Suc (min n (length rest))]
               = length (chunks s)
                 # [Suc (length (chunks s))..<Suc (length (chunks s)) + min n (length rest)]"
    proof -
      have "length (chunks s) < length (chunks s) + Suc (min n (length rest))" by simp
      then have "[length (chunks s)..<length (chunks s) + Suc (min n (length rest))]
                   = length (chunks s)
                     # [Suc (length (chunks s))..<length (chunks s) + Suc (min n (length rest))]"
        by (rule upt_conv_Cons)
      then show ?thesis by (simp only: add_Suc add_Suc_right)
    qed
    have i1: "fst (load_chunk_loop env n s3) = min n (length rest)"
      and i2: "ri_scan (snd (load_chunk_loop env n s3)) = drop (min n (length rest)) rest"
      and i3: "length (chunks (snd (load_chunk_loop env n s3)))
                 = Suc (length (chunks s)) + min n (length rest)"
      and i4: "chunk_ready_list (snd (load_chunk_loop env n s3))
                 = (chunk_ready_list s @ [length (chunks s)])
                   @ [Suc (length (chunks s))..<Suc (length (chunks s)) + min n (length rest)]"
      using Suc.IH [of s3] by (simp_all only: r c l)
    show ?thesis
      unfolding e m fst_conv snd_conv u
      using i1 i2 i3 i4 Cons by simp
  qed
qed

text \<open>
  A call either returns or stays in the loop of lines 845 to 863 for ever: the loop's body
  changes nothing, so once it is entered with the next cell missing and one of the two
  other lists not empty, it never leaves.
\<close>

datatype 'a outcome = Returns 'a | Spins

text \<open>
  The code from the label \<^verbatim>\<open>retry\<close> on, with the current chunk at position \<open>pos\<close> of
  the ready list.
\<close>


function retry ::
  "scan_env \<Rightarrow> exec_state \<Rightarrow> nat \<Rightarrow> tuple_slot \<Rightarrow> (tuple_slot \<times> exec_state) outcome" where
  "retry env s pos slot =
     (case pgstrom_scan_chunk_buffer s pos slot of
        (True, slot1, s1) \<Rightarrow> Returns (slot1, s1)
      | (False, slot1, s1) \<Rightarrow>
          (let num_chunks = pgstrom_max_async_chunks env - int (length (chunk_exec_list s1));
               s2 = snd (pgstrom_load_chunk_buffer env s1 num_chunks)
           in if length (chunk_ready_list s2) \<le> pos + 1
              then (if chunk_exec_list s2 = [] \<and> chunk_exec_pending_list s2 = []
                    then Returns (slot1, s2)
                    else Spins)
              else retry env (s2\<lparr>curr_chunk := Some (pos + 1), curr_index := 0\<rparr>)
                     (pos + 1) slot1))"
  by pat_completeness auto
termination
proof (relation "measure (\<lambda>(env, s, pos, slot).
                   length (ri_scan s) + length (chunk_ready_list s) - pos)")
  show "wf (measure (\<lambda>(env, s, pos, slot).
              length (ri_scan s) + length (chunk_ready_list s) - pos))"
    by simp
next
  fix env s pos slot x1 x2 x1a x2a num s2
  assume sc: "(x1, x2) = pgstrom_scan_chunk_buffer s pos slot"
    and x2: "(x1a, x2a) = x2"
    and n: "num = pgstrom_max_async_chunks env - int (length (chunk_exec_list x2a))"
    and s2: "s2 = snd (pgstrom_load_chunk_buffer env x2a num)"
    and lt: "\<not> length (chunk_ready_list s2) \<le> pos + 1"
  have "pipeline_frame x2a = pipeline_frame s"
    using frame_scan_chunk_buffer [of s pos slot] sc [symmetric] x2 [symmetric] by simp
  then have a: "ri_scan x2a = ri_scan s" "chunk_ready_list x2a = chunk_ready_list s"
    by (simp_all add: pipeline_frame_def)
  define k where "k = min (nat num) (length (ri_scan x2a))"
  have b: "ri_scan s2 = drop k (ri_scan x2a)"
    and c: "chunk_ready_list s2
              = chunk_ready_list x2a @ [length (chunks x2a)..<length (chunks x2a) + k]"
    using load_chunk_loop_lists [of env "nat num" x2a]
    by (simp_all add: s2 pgstrom_load_chunk_buffer_def k_def)
  have "k \<le> length (ri_scan x2a)" by (simp add: k_def)
  then have "length (ri_scan s2) + length (chunk_ready_list s2)
              = length (ri_scan s) + length (chunk_ready_list s)"
    by (simp add: a b c)
  with lt show "((env, s2\<lparr>curr_chunk := Some (pos + 1), curr_index := 0\<rparr>, pos + 1, x1a),
                 (env, s, pos, slot))
                \<in> measure (\<lambda>(env, s, pos, slot).
                     length (ri_scan s) + length (chunk_ready_list s) - pos)"
    by simp
qed

declare retry.simps [simp del]

text \<open>\<^verbatim>\<open>pgstrom_iterate_foreign_scan\<close>: the slot returned and the new state.\<close>

definition pgstrom_iterate_foreign_scan ::
  "scan_env \<Rightarrow> exec_state \<Rightarrow> tuple_slot \<Rightarrow> (tuple_slot \<times> exec_state) outcome" where
  "pgstrom_iterate_foreign_scan env s slot0 =
     (let slot = ExecClearTuple slot0
      in if predictable s < 0 then Returns (slot, s)
         else
           (case curr_chunk s of
              None \<Rightarrow>
                (let num_chunks = pgstrom_max_async_chunks env - int (length (chunk_exec_list s));
                     r = pgstrom_load_chunk_buffer env s num_chunks
                 in if fst r = 0 then Returns (slot, snd r)
                    else retry env ((snd r)\<lparr>curr_chunk := Some 0, curr_index := 0\<rparr>) 0 slot)
            | Some pos \<Rightarrow> retry env s pos slot))"

text \<open>\<open>n\<close> calls in a row, each on the slot and the state the call before it left.\<close>

fun next_calls ::
  "scan_env \<Rightarrow> nat \<Rightarrow> exec_state \<Rightarrow> tuple_slot \<Rightarrow> (tuple_slot \<times> exec_state) outcome" where
  "next_calls env 0 s slot = Returns (slot, s)"
| "next_calls env (Suc n) s slot =
     (case next_calls env n s slot of
        Spins \<Rightarrow> Spins
      | Returns (slot1, s1) \<Rightarrow> pgstrom_iterate_foreign_scan env s1 slot1)"


section \<open>Example data\<close>

definition demo_env :: scan_env where
  "demo_env = \<lparr>pgstrom_max_async_chunks = 4, PGSTROM_CHUNK_SIZE = 16, rowid_natts = 2\<rparr>"

definition demo_slot :: tuple_slot where
  "demo_slot = \<lparr>tts_isempty = True, tts_values = (\<lambda>_. 7), tts_isnull = (\<lambda>_. False)\<rparr>"

text \<open>An array of \<open>n\<close> values without a null bitmap.\<close>

definition plain_array :: "datum list \<Rightarrow> array_type" where
  "plain_array vs = \<lparr>arr_nitems = length vs, arr_nullbitmap = None, arr_data = vs\<rparr>"

section \<open>The predictable-but-empty short cut\<close>

text \<open>
  Claim C9. When the planner marked the query as predictable with an empty result
  (\<open>predictable\<close> is negative), a call of the iterator, the first one included, returns the
  cleared slot, which is how the end of the scan is reported, and leaves the state as it
  was: no call to the storage layer is logged and no scan has moved.
\<close>

theorem predictable_empty_ends_at_once:
  assumes "predictable s < 0"
  shows "pgstrom_iterate_foreign_scan env s slot = Returns (ExecClearTuple slot, s)
         \<and> tts_isempty (ExecClearTuple slot)"
  using assms by (simp add: pgstrom_iterate_foreign_scan_def ExecClearTuple_def)

theorem predictable_empty_ends_at_once_witness:
  "predictable (fresh_exec_state (- 1) {1} {} (\<lambda>_. [(0, plain_array [10, 11])])
                  [(0, \<lparr>VARBITLEN = 8, VARBITS = [3]\<rparr>)]) < 0
   \<and> pgstrom_iterate_foreign_scan demo_env
         (fresh_exec_state (- 1) {1} {} (\<lambda>_. [(0, plain_array [10, 11])])
            [(0, \<lparr>VARBITLEN = 8, VARBITS = [3]\<rparr>)]) demo_slot
       = Returns (ExecClearTuple demo_slot,
           fresh_exec_state (- 1) {1} {} (\<lambda>_. [(0, plain_array [10, 11])])
             [(0, \<lparr>VARBITLEN = 8, VARBITS = [3]\<rparr>)])
   \<and> accesses (fresh_exec_state (- 1) {1} {} (\<lambda>_. [(0, plain_array [10, 11])])
                  [(0, \<lparr>VARBITLEN = 8, VARBITS = [3]\<rparr>)]) = []"
proof -
  have h: "predictable (fresh_exec_state (- 1) {1} {} (\<lambda>_. [(0, plain_array [10, 11])])
                  [(0, \<lparr>VARBITLEN = 8, VARBITS = [3]\<rparr>)]) < 0"
    by (simp add: fresh_exec_state_def)
  show ?thesis
    using h predictable_empty_ends_at_once [OF h, of demo_env demo_slot]
    by (simp add: fresh_exec_state_def)
qed

section \<open>The cached array of a column\<close>

definition cached_100_110 :: exec_state where
  "cached_100_110 =
     (fresh_exec_state 1 {1} {} (\<lambda>_. [(100, plain_array [0, 1, 2, 3, 4, 5, 6, 7, 8, 9])]) [])
       \<lparr>cs_cur_values := (\<lambda>_. None)(0 := Some (plain_array [0, 1, 2, 3, 4, 5, 6, 7, 8, 9])),
        cs_cur_rowid_min := (\<lambda>_. 0)(0 := 100),
        cs_cur_rowid_max := (\<lambda>_. 0)(0 := 110)\<rparr>"

text \<open>
  Claim C3. With an array cached for the column, a lookup of a row identifier between the
  cached minimum and the cached maximum, the maximum itself included, is served from the
  cached array: the state stays as it was, so the cache is kept and the index scan is not
  touched. At the maximum the element read lies one past the end of the array.
\<close>

theorem cache_hit_at_declared_end:
  assumes "cs_cur_values s csidx = Some a"
    and "cs_cur_rowid_min s csidx \<le> rid"
    and "rid \<le> cs_cur_rowid_max s csidx"
  shows "pgstrom_scan_column_store s csidx rid slot
         = (set_column slot csidx (array_ref a (int32 (rid - cs_cur_rowid_min s csidx))), s)"
  using assms by (simp add: pgstrom_scan_column_store_def fetch_out_def)

theorem cache_hit_at_declared_end_witness:
  "cs_cur_values cached_100_110 0 = Some (plain_array [0, 1, 2, 3, 4, 5, 6, 7, 8, 9])
   \<and> cs_cur_rowid_min cached_100_110 0 = 100
   \<and> cs_cur_rowid_max cached_100_110 0 = 110
   \<and> pgstrom_scan_column_store cached_100_110 0 110 demo_slot
       = (set_column demo_slot 0 (0, True), cached_100_110)"
proof -
  have a: "cs_cur_values cached_100_110 0 = Some (plain_array [0, 1, 2, 3, 4, 5, 6, 7, 8, 9])"
    and b: "cs_cur_rowid_min cached_100_110 0 \<le> 110"
    and c: "110 \<le> cs_cur_rowid_max cached_100_110 0"
    by (simp_all add: cached_100_110_def)
  have d: "array_ref (plain_array [0, 1, 2, 3, 4, 5, 6, 7, 8, 9]) (int32 (110 - 100)) = (0, True)"
    by (simp add: array_ref_def plain_array_def int32_small)
  show ?thesis
    using cache_hit_at_declared_end [OF a b c, of demo_slot] d
    by (simp add: cached_100_110_def)
qed


section \<open>Opening and closing a relation set\<close>

lemma close_columns_step:
  "i < n \<Longrightarrow> close_columns relset i n
     = close_if (cs_rel relset ! i) @ close_if (cs_idx relset ! i) @ close_columns relset (Suc i) n"
  by (simp add: close_columns_def upt_conv_Cons)

lemma close_columns_done: "close_columns relset n n = []"
  by (simp add: close_columns_def)

lemma open_expecting_Inr: "open_expecting cat name kind = Inr r \<Longrightarrow> cat name = Some r"
  by (auto simp: open_expecting_def split: option.splits if_splits)

text \<open>
  The loop over the attributes opens exactly what the closing loop will release from the
  same position on, in the same order, and leaves the entries before that position alone.
\<close>

lemma open_columns_trace:
  assumes "open_columns cat b wi attrs i relset opened = Inr (relset', opened')"
    and "length (cs_rel relset) = n" and "length (cs_idx relset) = n"
    and "i + length attrs = n"
    and "\<forall>j. i \<le> j \<and> j < n \<longrightarrow> cs_rel relset ! j = None \<and> cs_idx relset ! j = None"
  shows "opened' = opened @ close_columns relset' i n
         \<and> (\<forall>j < i. cs_rel relset' ! j = cs_rel relset ! j \<and> cs_idx relset' ! j = cs_idx relset ! j)
         \<and> base_rel relset' = base_rel relset
         \<and> rowid_rel relset' = rowid_rel relset
         \<and> rowid_idx relset' = rowid_idx relset"
  using assms
proof (induction attrs arbitrary: i relset opened)
  case Nil
  then show ?case by (simp add: close_columns_done)
next
  case (Cons attr attrs)
  have i: "i < n" using Cons.prems(4) by simp
  have none: "cs_rel relset ! i = None" "cs_idx relset ! i = None"
    using Cons.prems(5) i by auto
  show ?case
  proof (cases "attisdropped attr")
    case True
    then have o: "open_columns cat b wi attrs (Suc i) relset opened = Inr (relset', opened')"
      using Cons.prems(1) by simp
    have ih: "opened' = opened @ close_columns relset' (Suc i) n
         \<and> (\<forall>j < Suc i. cs_rel relset' ! j = cs_rel relset ! j \<and> cs_idx relset' ! j = cs_idx relset ! j)
         \<and> base_rel relset' = base_rel relset
         \<and> rowid_rel relset' = rowid_rel relset
         \<and> rowid_idx relset' = rowid_idx relset"
      using Cons.IH [OF o Cons.prems(2) Cons.prems(3)] Cons.prems(4) Cons.prems(5) by simp
    then have "cs_rel relset' ! i = None" "cs_idx relset' ! i = None"
      using none by simp_all
    then show ?thesis
      using ih close_columns_step [OF i, of relset'] by (simp add: close_if_def)
  next
    case False
    obtain r where r: "open_expecting cat (cs_name b (attname attr) ''.cs'') RELKIND_RELATION = Inr r"
      using Cons.prems(1) False by (auto split: sum.splits)
    define relset1 where "relset1 = relset\<lparr>cs_rel := (cs_rel relset)[i := Some r]\<rparr>"
    show ?thesis
    proof (cases wi)
      case True
      obtain x where x: "open_expecting cat (cs_name b (attname attr) ''.idx'') RELKIND_INDEX = Inr x"
        using Cons.prems(1) False r True by (auto simp: Let_def split: sum.splits)
      define relset2 where "relset2 = relset1\<lparr>cs_idx := (cs_idx relset1)[i := Some x]\<rparr>"
      have o: "open_columns cat b wi attrs (Suc i) relset2 (opened @ [r] @ [x]) = Inr (relset', opened')"
        using Cons.prems(1) False r True x by (simp add: Let_def relset2_def relset1_def)
      have l: "length (cs_rel relset2) = n" "length (cs_idx relset2) = n"
        using Cons.prems(2,3) by (simp_all add: relset2_def relset1_def)
      have z: "\<forall>j. Suc i \<le> j \<and> j < n \<longrightarrow> cs_rel relset2 ! j = None \<and> cs_idx relset2 ! j = None"
        using Cons.prems(5) by (simp add: relset2_def relset1_def)
      have ih: "opened' = (opened @ [r] @ [x]) @ close_columns relset' (Suc i) n
         \<and> (\<forall>j < Suc i. cs_rel relset' ! j = cs_rel relset2 ! j \<and> cs_idx relset' ! j = cs_idx relset2 ! j)
         \<and> base_rel relset' = base_rel relset2
         \<and> rowid_rel relset' = rowid_rel relset2
         \<and> rowid_idx relset' = rowid_idx relset2"
        using Cons.IH [OF o l _ z] Cons.prems(4) by simp
      have here: "cs_rel relset' ! i = Some r" "cs_idx relset' ! i = Some x"
        using ih i Cons.prems(2,3) by (simp_all add: relset2_def relset1_def)
      have before: "\<forall>j < i. cs_rel relset' ! j = cs_rel relset ! j \<and> cs_idx relset' ! j = cs_idx relset ! j"
        using ih by (simp add: relset2_def relset1_def)
      show ?thesis
        using ih before here close_columns_step [OF i, of relset']
        by (simp add: close_if_def relset2_def relset1_def)
    next
      case False2: False
      have o: "open_columns cat b wi attrs (Suc i) relset1 (opened @ [r]) = Inr (relset', opened')"
        using Cons.prems(1) False r False2 by (simp add: Let_def relset1_def)
      have l: "length (cs_rel relset1) = n" "length (cs_idx relset1) = n"
        using Cons.prems(2,3) by (simp_all add: relset1_def)
      have z: "\<forall>j. Suc i \<le> j \<and> j < n \<longrightarrow> cs_rel relset1 ! j = None \<and> cs_idx relset1 ! j = None"
        using Cons.prems(5) by (simp add: relset1_def)
      have ih: "opened' = (opened @ [r]) @ close_columns relset' (Suc i) n
         \<and> (\<forall>j < Suc i. cs_rel relset' ! j = cs_rel relset1 ! j \<and> cs_idx relset' ! j = cs_idx relset1 ! j)
         \<and> base_rel relset' = base_rel relset1
         \<and> rowid_rel relset' = rowid_rel relset1
         \<and> rowid_idx relset' = rowid_idx relset1"
        using Cons.IH [OF o l _ z] Cons.prems(4) by simp
      have here: "cs_rel relset' ! i = Some r" "cs_idx relset' ! i = None"
        using ih i none Cons.prems(2,3) by (simp_all add: relset1_def)
      have before: "\<forall>j < i. cs_rel relset' ! j = cs_rel relset ! j \<and> cs_idx relset' ! j = cs_idx relset ! j"
        using ih by (simp add: relset1_def)
      show ?thesis
        using ih before here close_columns_step [OF i, of relset']
        by (simp add: close_if_def relset1_def)
    qed
  qed
qed

lemma open_relation_set_cases:
  assumes "pgstrom_open_relation_set cat b with_index = Inr (relset, opened)"
  shows "\<exists>relset1 opened1 relset2 qq.
           open_columns cat b with_index (base_attrs b) 0 relset1 opened1 = Inr (relset2, opened)
         \<and> relset = relset2\<lparr>rowid_seqid := qq\<rparr>
         \<and> cs_rel relset1 = replicate (length (base_attrs b)) None
         \<and> cs_idx relset1 = replicate (length (base_attrs b)) None
         \<and> base_rel relset1 = b
         \<and> opened1 = close_if (rowid_rel relset1) @ close_if (rowid_idx relset1)"
proof -
  define relset0 where "relset0 = \<lparr>base_rel = b, rowid_rel = None, rowid_idx = None,
                       cs_rel = replicate (length (base_attrs b)) None,
                       cs_idx = replicate (length (base_attrs b)) None,
                       rowid_seqid = 0\<rparr>"
  from assms obtain r where r: "open_expecting cat (top_name b ''.rowid'') RELKIND_RELATION = Inr r"
    by (auto simp: pgstrom_open_relation_set_def Let_def split: if_splits sum.splits)
  show ?thesis
  proof (cases with_index)
    case True
    from assms r True obtain x where
      x: "open_expecting cat (top_name b ''.idx'') RELKIND_INDEX = Inr x"
      by (auto simp: pgstrom_open_relation_set_def Let_def split: if_splits sum.splits)
    define relset1 where "relset1 = relset0\<lparr>rowid_rel := Some r, rowid_idx := Some x\<rparr>"
    from assms r True x obtain relset2 qq where
      "open_columns cat b with_index (base_attrs b) 0 relset1 [r, x] = Inr (relset2, opened)"
      "relset = relset2\<lparr>rowid_seqid := qq\<rparr>"
      by (auto simp: pgstrom_open_relation_set_def Let_def relset1_def relset0_def
               split: if_splits sum.splits option.splits)
    moreover have "cs_rel relset1 = replicate (length (base_attrs b)) None"
      "cs_idx relset1 = replicate (length (base_attrs b)) None" "base_rel relset1 = b"
      "[r, x] = close_if (rowid_rel relset1) @ close_if (rowid_idx relset1)"
      by (simp_all add: relset1_def relset0_def close_if_def)
    ultimately show ?thesis by blast
  next
    case False
    define relset1 where "relset1 = relset0\<lparr>rowid_rel := Some r\<rparr>"
    from assms r False obtain relset2 qq where
      "open_columns cat b with_index (base_attrs b) 0 relset1 [r] = Inr (relset2, opened)"
      "relset = relset2\<lparr>rowid_seqid := qq\<rparr>"
      by (auto simp: pgstrom_open_relation_set_def Let_def relset1_def relset0_def
               split: if_splits sum.splits option.splits)
    moreover have "cs_rel relset1 = replicate (length (base_attrs b)) None"
      "cs_idx relset1 = replicate (length (base_attrs b)) None" "base_rel relset1 = b"
      "[r] = close_if (rowid_rel relset1) @ close_if (rowid_idx relset1)"
      by (simp_all add: relset1_def relset0_def close_if_def)
    ultimately show ?thesis by blast
  qed
qed

definition demo_rel :: "nat \<Rightarrow> string \<Rightarrow> relkind \<Rightarrow> relation" where
  "demo_rel oid name kind = \<lparr>rel_oid = oid, rel_name = name, rel_relkind = kind\<rparr>"

definition demo_catalog :: catalog where
  "demo_catalog = map_of
     [(''s.t.rowid'', demo_rel 1 ''s.t.rowid'' RELKIND_RELATION),
      (''s.t.idx'', demo_rel 2 ''s.t.idx'' RELKIND_INDEX),
      (''s.t.a.cs'', demo_rel 3 ''s.t.a.cs'' RELKIND_RELATION),
      (''s.t.a.idx'', demo_rel 4 ''s.t.a.idx'' RELKIND_INDEX),
      (''s.t.b.cs'', demo_rel 5 ''s.t.b.cs'' RELKIND_RELATION),
      (''s.t.b.idx'', demo_rel 6 ''s.t.b.idx'' RELKIND_INDEX),
      (''s.t.seq'', demo_rel 7 ''s.t.seq'' RELKIND_SEQUENCE)]"

definition demo_base :: base_relation where
  "demo_base = \<lparr>base_name = ''t'', base_schema = ''s'', base_relkind = RELKIND_FOREIGN_TABLE,
       base_managed = True,
       base_attrs = [\<lparr>attname = ''a'', attisdropped = False\<rparr>,
                     \<lparr>attname = ''b'', attisdropped = False\<rparr>]\<rparr>"

definition demo_opened :: "relation list" where
  "demo_opened =
     [demo_rel 1 ''s.t.rowid'' RELKIND_RELATION, demo_rel 2 ''s.t.idx'' RELKIND_INDEX,
      demo_rel 3 ''s.t.a.cs'' RELKIND_RELATION, demo_rel 4 ''s.t.a.idx'' RELKIND_INDEX,
      demo_rel 5 ''s.t.b.cs'' RELKIND_RELATION, demo_rel 6 ''s.t.b.idx'' RELKIND_INDEX]"

definition demo_relset :: relation_set where
  "demo_relset =
     \<lparr>base_rel = demo_base,
      rowid_rel = Some (demo_rel 1 ''s.t.rowid'' RELKIND_RELATION),
      rowid_idx = Some (demo_rel 2 ''s.t.idx'' RELKIND_INDEX),
      cs_rel = [Some (demo_rel 3 ''s.t.a.cs'' RELKIND_RELATION),
                Some (demo_rel 5 ''s.t.b.cs'' RELKIND_RELATION)],
      cs_idx = [Some (demo_rel 4 ''s.t.a.idx'' RELKIND_INDEX),
                Some (demo_rel 6 ''s.t.b.idx'' RELKIND_INDEX)],
      rowid_seqid = 7\<rparr>"

lemma demo_open:
  "pgstrom_open_relation_set demo_catalog demo_base True = Inr (demo_relset, demo_opened)"
  by (simp add: pgstrom_open_relation_set_def demo_catalog_def demo_base_def demo_relset_def
        demo_opened_def demo_rel_def open_expecting_def top_name_def cs_name_def Let_def)

lemma demo_close:
  "pgstrom_close_relation_set demo_relset = demo_opened"
  by (simp add: pgstrom_close_relation_set_def close_columns_def close_if_def demo_relset_def
        demo_base_def demo_opened_def upt_conv_Cons)

text \<open>
  Claim C6, as amended. Closing a relation set that was opened without an error releases
  every handle the opening took, each once, and in the order in which they were opened:
  the row map and its index first, then for each column in ascending attribute position
  its store and its index.
\<close>

theorem close_releases_in_opening_order:
  assumes "pgstrom_open_relation_set cat b with_index = Inr (relset, opened)"
  shows "pgstrom_close_relation_set relset = opened"
proof -
  define n where "n = length (base_attrs b)"
  obtain relset1 opened1 relset2 qq where
    c: "open_columns cat b with_index (base_attrs b) 0 relset1 opened1 = Inr (relset2, opened)"
    and q: "relset = relset2\<lparr>rowid_seqid := qq\<rparr>"
    and shape: "cs_rel relset1 = replicate n None" "cs_idx relset1 = replicate n None"
      "base_rel relset1 = b"
      "opened1 = close_if (rowid_rel relset1) @ close_if (rowid_idx relset1)"
    using open_relation_set_cases [OF assms] unfolding n_def by blast
  have t: "opened = opened1 @ close_columns relset2 0 n
         \<and> (\<forall>j < 0. cs_rel relset2 ! j = cs_rel relset1 ! j \<and> cs_idx relset2 ! j = cs_idx relset1 ! j)
         \<and> base_rel relset2 = base_rel relset1
         \<and> rowid_rel relset2 = rowid_rel relset1
         \<and> rowid_idx relset2 = rowid_idx relset1"
    using open_columns_trace [OF c, of n] shape by (simp add: n_def)
  show ?thesis
    using q t shape by (simp add: pgstrom_close_relation_set_def close_columns_def n_def)
qed

theorem close_releases_in_opening_order_witness:
  "pgstrom_open_relation_set demo_catalog demo_base True = Inr (demo_relset, demo_opened)
   \<and> pgstrom_close_relation_set demo_relset = demo_opened"
  using demo_open close_releases_in_opening_order [OF demo_open] by simp

text \<open>
  Claim C6 as stated fails: for a table with the columns \<open>a\<close> and \<open>b\<close>, opened in this
  order, the handles of \<open>a\<close> are released before those of \<open>b\<close>, not after them.
\<close>

theorem close_not_in_reverse_order:
  "pgstrom_open_relation_set demo_catalog demo_base True = Inr (demo_relset, demo_opened)
   \<and> map rel_name (drop 2 demo_opened) = [''s.t.a.cs'', ''s.t.a.idx'', ''s.t.b.cs'', ''s.t.b.idx'']
   \<and> map rel_name (drop 2 (pgstrom_close_relation_set demo_relset))
       = [''s.t.a.cs'', ''s.t.a.idx'', ''s.t.b.cs'', ''s.t.b.idx'']
   \<and> drop 2 (pgstrom_close_relation_set demo_relset) \<noteq> rev (drop 2 demo_opened)
   \<and> map rel_name (drop 2 (pgstrom_close_relation_set demo_relset))
       \<noteq> [''s.t.b.cs'', ''s.t.b.idx'', ''s.t.a.cs'', ''s.t.a.idx'']"
  by (simp add: demo_open demo_close) (simp add: demo_opened_def demo_rel_def)


section \<open>Eager loading of a column\<close>

text \<open>What a row of an eagerly loaded column reads as, and what a lazy lookup stores.\<close>

definition eager_pair :: "scan_env \<Rightarrow> exec_state \<Rightarrow> chunk_buf \<Rightarrow> nat \<Rightarrow> nat \<Rightarrow> datum \<times> bool" where
  "eager_pair env s chunk attnum index =
     (let chunk1 = snd (pgstrom_load_column_store env s chunk attnum)
      in case cs_values chunk1 (attnum - 1) of
           None \<Rightarrow> (0, True)
         | Some vals \<Rightarrow> chunk_fetch chunk1 (attnum - 1) vals index)"

definition lazy_pair :: "exec_state \<Rightarrow> nat \<Rightarrow> int \<Rightarrow> tuple_slot \<Rightarrow> datum \<times> bool" where
  "lazy_pair s csidx rid slot =
     (let slot1 = fst (pgstrom_scan_column_store s csidx rid slot)
      in (tts_values slot1 csidx, tts_isnull slot1 csidx))"

definition empty_chunk :: "int \<Rightarrow> varbit \<Rightarrow> chunk_buf" where
  "empty_chunk r rm =
     \<lparr>nattrs = 2, rowid = r, rowmap = rm, cs_nulls = (\<lambda>_. None), cs_values = (\<lambda>_. None)\<rparr>"

definition gap_store :: "nat \<Rightarrow> cs_tuple list" where
  "gap_store = (\<lambda>_. [(8, plain_array [1, 2, 3, 4, 5, 6, 7, 8])])"

definition far_store :: "nat \<Rightarrow> cs_tuple list" where
  "far_store = (\<lambda>_. [(16, plain_array [1, 2, 3, 4, 5, 6, 7, 8])])"

definition full_rowmap :: varbit where
  "full_rowmap = \<lparr>VARBITLEN = 16, VARBITS = [255, 255]\<rparr>"

text \<open>An array whose first element is null: bit 0 of the bitmap is clear, the others are set.\<close>

definition null_first_store :: "nat \<Rightarrow> cs_tuple list" where
  "null_first_store =
     (\<lambda>_. [(0, \<lparr>arr_nitems = 8, arr_nullbitmap = Some [254],
                 arr_data = [11, 12, 13, 14, 15, 16, 17]\<rparr>)])"

lemma index_qualifying_empty:
  assumes "list_all (\<lambda>t. fst t < lo \<or> hi \<le> fst t) rel"
  shows "index_qualifying rel [(BTGreaterEqualStrategy, lo), (BTLessStrategy, hi)] = []"
proof -
  have "filter (\<lambda>t. list_all (\<lambda>k. key_holds k (fst t))
                  [(BTGreaterEqualStrategy, lo), (BTLessStrategy, hi)]) rel = []"
    using assms by (induction rel) auto
  then show ?thesis by (simp add: index_qualifying_def)
qed

text \<open>
  The case the loader does handle. When \<^verbatim>\<open>PGSTROM_CHUNK_SIZE\<close> is a multiple of 8 and the
  column store holds no tuple whose row identifier lies in the chunk's range
  \<open>[rowid, rowid + PGSTROM_CHUNK_SIZE)\<close>, loading the column is not an error: the range scan
  is begun, fetches once without a result and is ended, and every row of the chunk then
  reads as null for that column.
\<close>

theorem empty_range_loads_all_null:
  assumes "8 dvd PGSTROM_CHUNK_SIZE env"
    and "list_all (\<lambda>t. fst t < rowid chunk
                       \<or> rowid chunk + int (PGSTROM_CHUNK_SIZE env) \<le> fst t)
           (cs_tuples s (attnum - 1))"
    and "index < PGSTROM_CHUNK_SIZE env"
  shows "fst (pgstrom_load_column_store env s chunk attnum)
           = s\<lparr>accesses := accesses s @ [IndexBeginScan (attnum - 1), IndexRescan (attnum - 1),
                                         IndexGetNext (attnum - 1), IndexEndScan (attnum - 1)]\<rparr>
         \<and> eager_pair env s chunk attnum index = (0, True)"
proof -
  have e: "index_qualifying (cs_tuples s (attnum - 1))
             [(BTGreaterEqualStrategy, rowid chunk),
              (BTLessStrategy, rowid chunk + int (PGSTROM_CHUNK_SIZE env))] = []"
    using assms(2) by (rule index_qualifying_empty)
  have "index div 8 < PGSTROM_CHUNK_SIZE env div 8"
    using assms(1,3) by (auto elim!: dvdE)
  moreover have "(- 1 :: 8 word) AND push_bit (index mod 8) 1 \<noteq> 0"
    by (simp add: push_bit_of_1)
  ultimately show ?thesis
    using e by (simp add: eager_pair_def pgstrom_load_column_store_def Let_def chunk_fetch_def)
qed

theorem empty_range_loads_all_null_witness:
  "8 dvd PGSTROM_CHUNK_SIZE demo_env
   \<and> list_all (\<lambda>t. fst t < rowid (empty_chunk 0 full_rowmap)
                    \<or> rowid (empty_chunk 0 full_rowmap) + int (PGSTROM_CHUNK_SIZE demo_env) \<le> fst t)
        (cs_tuples (fresh_exec_state 0 {1} {1} far_store []) (1 - 1))
   \<and> 5 < PGSTROM_CHUNK_SIZE demo_env
   \<and> eager_pair demo_env (fresh_exec_state 0 {1} {1} far_store []) (empty_chunk 0 full_rowmap) 1 5
       = (0, True)"
proof -
  have a: "8 dvd PGSTROM_CHUNK_SIZE demo_env" by (simp add: demo_env_def)
  have b: "list_all (\<lambda>t. fst t < rowid (empty_chunk 0 full_rowmap)
                    \<or> rowid (empty_chunk 0 full_rowmap) + int (PGSTROM_CHUNK_SIZE demo_env) \<le> fst t)
        (cs_tuples (fresh_exec_state 0 {1} {1} far_store []) (1 - 1))"
    by (simp add: demo_env_def fresh_exec_state_def far_store_def empty_chunk_def)
  have c: "5 < PGSTROM_CHUNK_SIZE demo_env" by (simp add: demo_env_def)
  show ?thesis
    using a b c empty_range_loads_all_null [OF a b c] by simp
qed

lemma gap_store_qualifying:
  "index_qualifying (gap_store 0) [(BTGreaterEqualStrategy, 0), (BTLessStrategy, 16)]
     = [(8, plain_array [1, 2, 3, 4, 5, 6, 7, 8])]"
  by (simp add: index_qualifying_def gap_store_def)

lemma gap_store_loaded:
  "cs_nulls (snd (pgstrom_load_column_store demo_env (fresh_exec_state 0 {1} {1} gap_store [])
                    (empty_chunk 0 full_rowmap) 1)) 0 = None
   \<and> eager_pair demo_env (fresh_exec_state 0 {1} {1} gap_store []) (empty_chunk 0 full_rowmap) 1 0
       = (0, False)"
  using gap_store_qualifying
  by (simp add: eager_pair_def pgstrom_load_column_store_def Let_def fresh_exec_state_def
        demo_env_def empty_chunk_def load_tuple_def plain_array_def copy_values_def
        chunk_fetch_def)

text \<open>
  Claim C5 fails on the code. The loader marks rows as null only when the range scan of
  the whole chunk finds no tuple; a part of the chunk without stored rows, in a chunk for
  which some tuple was found, is not marked. With one stored array for the rows 8 to 15
  of a chunk of 16 rows, the rows 0 to 7 have no stored values, yet the column gets no
  null bitmap and row 0 reads as the value 0, not as null, where the lazy lookup of the
  same row gives null.
\<close>

theorem partial_gap_not_marked_null:
  "list_all (\<lambda>t. 8 \<le> fst t) (gap_store 0)
   \<and> cs_nulls (snd (pgstrom_load_column_store demo_env (fresh_exec_state 0 {1} {1} gap_store [])
                      (empty_chunk 0 full_rowmap) 1)) 0 = None
   \<and> eager_pair demo_env (fresh_exec_state 0 {1} {1} gap_store []) (empty_chunk 0 full_rowmap) 1 0
       = (0, False)"
  using gap_store_loaded by (simp add: gap_store_def)

lemma gap_store_lazy:
  "lazy_pair (fresh_exec_state 0 {1} {1} gap_store []) 0 0 demo_slot = (0, True)"
  by (simp add: lazy_pair_def pgstrom_scan_column_store_def full_seek_def cs_rescan_def
        cs_getnext_def index_getnext_def index_rescan_def index_qualifying_def Let_def
        fresh_exec_state_def gap_store_def set_column_def)

lemma null_first_eager:
  "eager_pair demo_env (fresh_exec_state 0 {1} {1} null_first_store [])
     (empty_chunk 0 full_rowmap) 1 1 = (0, True)"
  by (simp add: eager_pair_def pgstrom_load_column_store_def Let_def fresh_exec_state_def
        demo_env_def empty_chunk_def load_tuple_def copy_values_def copy_nulls_def
        chunk_fetch_def index_qualifying_def null_first_store_def push_bit_of_1)

lemma null_first_lazy:
  "lazy_pair (fresh_exec_state 0 {1} {1} null_first_store []) 0 1 demo_slot = (11, False)"
  by (simp add: lazy_pair_def pgstrom_scan_column_store_def full_seek_def cs_rescan_def
        cs_getnext_def index_getnext_def index_rescan_def index_qualifying_def Let_def
        fresh_exec_state_def null_first_store_def set_column_def set_cache_def fetch_out_def
        int32_small
        array_ref_def array_get_isnull_def array_seek_def push_bit_of_1 upt_conv_Cons)

text \<open>
  Claim C4 fails on the code. For the same stored data the eager path and the lazy path
  disagree: a row that no stored array covers, in a chunk for which some array was found,
  reads as the value 0 when loaded eagerly and as null when looked up; and an array's
  null bitmap is copied into the chunk as it is, although the chunk reads a set bit as
  null and the array sets the bit of an element that is not null.
\<close>

theorem eager_differs_from_lazy:
  "eager_pair demo_env (fresh_exec_state 0 {1} {1} gap_store []) (empty_chunk 0 full_rowmap) 1 0
     = (0, False)
   \<and> lazy_pair (fresh_exec_state 0 {1} {1} gap_store []) 0 0 demo_slot = (0, True)
   \<and> eager_pair demo_env (fresh_exec_state 0 {1} {1} null_first_store [])
        (empty_chunk 0 full_rowmap) 1 1 = (0, True)
   \<and> lazy_pair (fresh_exec_state 0 {1} {1} null_first_store []) 0 1 demo_slot = (11, False)"
  using gap_store_loaded gap_store_lazy null_first_eager null_first_lazy by simp


section \<open>The forward probe against the full seek\<close>

text \<open>
  A column store without gaps, eight rows to an array, and three lookups in a row: of the
  rows 0, 16 and 32.
\<close>

definition dense_store :: "nat \<Rightarrow> cs_tuple list" where
  "dense_store =
     (\<lambda>_. [(0, plain_array [0, 1, 2, 3, 4, 5, 6, 7]),
           (8, plain_array [80, 81, 82, 83, 84, 85, 86, 87]),
           (16, plain_array [160, 161, 162, 163, 164, 165, 166, 167]),
           (24, plain_array [240, 241, 242, 243, 244, 245, 246, 247]),
           (32, plain_array [320, 321, 322, 323, 324, 325, 326, 327])])"

definition dense_fresh :: exec_state where
  "dense_fresh = fresh_exec_state 1 {1} {} dense_store []"

definition dense_after_0 :: exec_state where
  "dense_after_0 = snd (pgstrom_scan_column_store dense_fresh 0 0 demo_slot)"

definition dense_after_16 :: exec_state where
  "dense_after_16 = snd (pgstrom_scan_column_store dense_after_0 0 16 demo_slot)"

lemmas lookup_defs =
  pgstrom_scan_column_store_def full_seek_def cs_rescan_def
  cs_getnext_def index_getnext_def index_rescan_def index_qualifying_def Let_def
  set_column_def set_cache_def fetch_out_def int32_small array_ref_def array_get_isnull_def
  array_seek_def
  plain_array_def

lemma dense_after_0_fields:
  "cs_tuples dense_after_0 = dense_store"
  "cs_cur_values dense_after_0 0 = Some (plain_array [0, 1, 2, 3, 4, 5, 6, 7])"
  "cs_cur_rowid_min dense_after_0 0 = 0"
  "cs_cur_rowid_max dense_after_0 0 = 8"
  "cs_scan dense_after_0 0 = \<lparr>is_keys = [(BTGreaterStrategy, 8)], is_pos = None\<rparr>"
  "accesses dense_after_0 = [IndexRescan 0, IndexGetNext 0, IndexRescan 0]"
  by (simp_all add: dense_after_0_def dense_fresh_def fresh_exec_state_def dense_store_def
        lookup_defs)

lemma dense_after_16_fields:
  "cs_tuples dense_after_16 = dense_store"
  "cs_cur_values dense_after_16 0 = Some (plain_array [160, 161, 162, 163, 164, 165, 166, 167])"
  "cs_cur_rowid_min dense_after_16 0 = 16"
  "cs_cur_rowid_max dense_after_16 0 = 24"
  "cs_scan dense_after_16 0 = \<lparr>is_keys = [(BTGreaterStrategy, 8)], is_pos = Some 0\<rparr>"
  "accesses dense_after_16 = [IndexRescan 0, IndexGetNext 0, IndexRescan 0, IndexGetNext 0]"
  using dense_after_0_fields
  by (simp_all add: dense_after_16_def dense_store_def lookup_defs numeral_2_eq_2)

lemma dense_probe_32:
  "lazy_pair dense_after_16 0 32 demo_slot = (0, True)"
  "accesses (snd (pgstrom_scan_column_store dense_after_16 0 32 demo_slot))
     = accesses dense_after_16 @ [IndexGetNext 0]"
  using dense_after_16_fields
  by (simp_all add: lazy_pair_def dense_store_def lookup_defs numeral_2_eq_2)

lemma dense_seek_32:
  "lazy_pair dense_fresh 0 32 demo_slot = (320, False)"
  "accesses (snd (pgstrom_scan_column_store dense_fresh 0 32 demo_slot))
     = accesses dense_fresh @ [IndexRescan 0, IndexGetNext 0, IndexRescan 0]"
  by (simp_all add: lazy_pair_def dense_fresh_def fresh_exec_state_def dense_store_def lookup_defs)

text \<open>
  Claim C2 fails on the code. After the lookups of the rows 0 and 16 the array of the rows
  16 to 23 is cached and the scan stands before the array of the rows 24 to 31. The
  lookup of row 32 is served by the forward probe with a single fetch: the array that
  starts at 24 is taken as a hit, since 32 is its declared end, and the element read lies
  one past its last, so the result is null. The full seek, which serves the same lookup
  on the same data when nothing is cached, finds the array that starts at 32 and
  returns its first element.
\<close>

theorem probe_differs_from_seek:
  "cs_tuples dense_after_16 = cs_tuples dense_fresh
   \<and> lazy_pair dense_after_16 0 32 demo_slot = (0, True)
   \<and> accesses (snd (pgstrom_scan_column_store dense_after_16 0 32 demo_slot))
       = accesses dense_after_16 @ [IndexGetNext 0]
   \<and> lazy_pair dense_fresh 0 32 demo_slot = (320, False)
   \<and> accesses (snd (pgstrom_scan_column_store dense_fresh 0 32 demo_slot))
       = accesses dense_fresh @ [IndexRescan 0, IndexGetNext 0, IndexRescan 0]"
  using dense_probe_32 dense_seek_32 dense_after_16_fields(1)
  by (simp add: dense_fresh_def fresh_exec_state_def)


section \<open>The three chunk lists\<close>










text \<open>
  A scan of one chunk whose row map has the bits 0 and 1 set, over a table of three
  columns of which the first is required; the row map's relation has two attributes.
  \<open>two_live_after\<close> and \<open>two_live_row\<close> are the state and the slot after the first call.
\<close>

definition two_live_rowmap :: varbit where
  "two_live_rowmap = \<lparr>VARBITLEN = 8, VARBITS = [3]\<rparr>"

definition two_live_store :: "nat \<Rightarrow> cs_tuple list" where
  "two_live_store = (\<lambda>_. [(0, plain_array [10, 11, 12, 13, 14, 15, 16, 17])])"

definition two_live_fresh :: exec_state where
  "two_live_fresh = fresh_exec_state 1 {1} {} two_live_store [(0, two_live_rowmap)]"

definition two_live_after :: exec_state where
  "two_live_after =
     \<lparr>predictable = 1, required_cols = {1}, clause_cols = {},
      cs_tuples = two_live_store, ri_scan = [],
      cs_scan = (\<lambda>_. \<lparr>is_keys = [], is_pos = None\<rparr>)
                  (0 := \<lparr>is_keys = [(BTGreaterStrategy, 8)], is_pos = None\<rparr>),
      cs_cur_values = (\<lambda>_. None)(0 := Some (plain_array [10, 11, 12, 13, 14, 15, 16, 17])),
      cs_cur_rowid_min = (\<lambda>_. 0)(0 := 0), cs_cur_rowid_max = (\<lambda>_. 0)(0 := 8),
      chunks = [empty_chunk 0 two_live_rowmap],
      chunk_exec_pending_list = [], chunk_exec_list = [],
      chunk_ready_list = [0], curr_chunk = Some 0, curr_index = 0,
      accesses = [HeapGetNext, HeapGetNext, IndexRescan 0, IndexGetNext 0, IndexRescan 0]\<rparr>"

definition two_live_row :: tuple_slot where
  "two_live_row =
     \<lparr>tts_isempty = False, tts_values = (\<lambda>_. 7)(0 := 10, 1 := 0),
      tts_isnull = (\<lambda>_. False)(0 := False, 1 := True)\<rparr>"

lemma scan_rowmap_two_live: "scan_rowmap two_live_rowmap 0 = Some 0"
  by (subst scan_rowmap.simps) (simp add: two_live_rowmap_def)

lemma two_live_load:
  "pgstrom_load_chunk_buffer demo_env two_live_fresh 4
     = (1, two_live_fresh\<lparr>ri_scan := [], chunks := [empty_chunk 0 two_live_rowmap],
                         chunk_ready_list := [0], accesses := [HeapGetNext, HeapGetNext]\<rparr>)"
  by (simp add: pgstrom_load_chunk_buffer_def two_live_fresh_def fresh_exec_state_def
        demo_env_def empty_chunk_def eval_nat_numeral Let_def)


lemma two_live_first:
  "pgstrom_iterate_foreign_scan demo_env two_live_fresh demo_slot
     = Returns (two_live_row, two_live_after)"
proof -
  have num: "pgstrom_max_async_chunks demo_env - int (length (chunk_exec_list two_live_fresh)) = 4"
    and p: "predictable two_live_fresh = 1" "curr_chunk two_live_fresh = None"
    by (simp_all add: demo_env_def two_live_fresh_def fresh_exec_state_def)
  have "retry demo_env
          (two_live_fresh\<lparr>ri_scan := [], chunks := [empty_chunk 0 two_live_rowmap],
                         chunk_ready_list := [0], accesses := [HeapGetNext, HeapGetNext],
                         curr_chunk := Some 0, curr_index := 0\<rparr>) 0 (ExecClearTuple demo_slot)
        = Returns (two_live_row, two_live_after)"
    apply (subst retry.simps)
    apply (simp add: two_live_fresh_def fresh_exec_state_def pgstrom_scan_chunk_buffer_def
        empty_chunk_def scan_rowmap_two_live upt_conv_Cons lookup_defs two_live_store_def
        ExecClearTuple_def ExecStoreVirtualTuple_def demo_slot_def two_live_row_def
        two_live_after_def)
    done
  then show ?thesis
    by (simp add: pgstrom_iterate_foreign_scan_def Let_def num p two_live_load)
qed

lemma two_live_again:
  "pgstrom_iterate_foreign_scan demo_env two_live_after two_live_row
     = Returns (two_live_row, two_live_after)"
proof -
  have p: "predictable two_live_after = 1" "curr_chunk two_live_after = Some 0"
    by (simp_all add: two_live_after_def)
  have "retry demo_env two_live_after 0 (ExecClearTuple two_live_row)
        = Returns (two_live_row, two_live_after)"
    apply (subst retry.simps)
    apply (simp add: two_live_after_def pgstrom_scan_chunk_buffer_def
        empty_chunk_def scan_rowmap_two_live upt_conv_Cons lookup_defs two_live_store_def
        ExecClearTuple_def ExecStoreVirtualTuple_def two_live_row_def)
    done
  then show ?thesis
    by (simp add: pgstrom_iterate_foreign_scan_def Let_def p)
qed


lemma two_live_calls:
  "next_calls demo_env (Suc n) two_live_fresh demo_slot = Returns (two_live_row, two_live_after)"
  by (induction n) (simp_all add: two_live_first two_live_again)







section \<open>The rows the iterator emits\<close>

text \<open>
  Claim C1 fails on the code. \<^verbatim>\<open>pgstrom_scan_chunk_buffer\<close> starts its walk at
  \<open>curr_index\<close> and never stores the position it found, so every call finds the first
  set bit again: for a row map with the bits 0 and 1 set, every call returns the row of
  bit 0 (row identifier \<open>rowid + 0\<close>, whose value in the first column is 10), and the row
  of bit 1 is never emitted.
\<close>

theorem first_live_row_repeats:
  "scan_rowmap two_live_rowmap 1 = Some 1
   \<and> rowid (chunks two_live_after ! 0) = 0
   \<and> (\<forall>n. next_calls demo_env (Suc n) two_live_fresh demo_slot
              = Returns (two_live_row, two_live_after))
   \<and> \<not> tts_isempty two_live_row
   \<and> tts_values two_live_row 0 = 10
   \<and> curr_index two_live_after = 0"
  using two_live_calls
  by (simp add: two_live_row_def two_live_after_def empty_chunk_def)
     (subst scan_rowmap.simps, simp add: two_live_rowmap_def)

text \<open>
  Claim C10 fails on the code. The loop over the columns runs to the chunk's \<open>nattrs\<close>,
  which \<^verbatim>\<open>pgstrom_load_chunk_buffer\<close> takes from the tuple descriptor of the row map's
  relation (two attributes), not from the base table. For a table of three columns the
  third column, which is not required, is not written: the emitted row carries what the
  slot held before, here the value 7 and not null.
\<close>

theorem unvisited_column_keeps_old_value:
  "3 \<notin> required_cols two_live_fresh
   \<and> rowid_natts demo_env = 2
   \<and> pgstrom_iterate_foreign_scan demo_env two_live_fresh demo_slot
       = Returns (two_live_row, two_live_after)
   \<and> \<not> tts_isempty two_live_row
   \<and> tts_values demo_slot 2 = 7 \<and> \<not> tts_isnull demo_slot 2
   \<and> tts_values two_live_row 2 = 7 \<and> \<not> tts_isnull two_live_row 2"
  using two_live_first
  by (simp add: two_live_row_def two_live_fresh_def fresh_exec_state_def demo_env_def
        demo_slot_def)


section \<open>Further properties of the walk, the columns and the loader\<close>

definition row_live :: "varbit \<Rightarrow> nat \<Rightarrow> bool" where
  "row_live rm k = ((VARBITS rm ! (k div 8)) AND push_bit (k mod 8) 1 \<noteq> 0)"

lemma scan_rowmap_Some:
  "scan_rowmap rm i = Some j \<Longrightarrow>
     i \<le> j \<and> j < VARBITLEN rm \<and> row_live rm j \<and> (\<forall>k. i \<le> k \<and> k < j \<longrightarrow> \<not> row_live rm k)"
proof (induction rm i rule: scan_rowmap.induct)
  case (1 rm index)
  show ?case
  proof (cases "index < VARBITLEN rm")
    case False
    with "1.prems" show ?thesis by (subst (asm) scan_rowmap.simps) simp
  next
    case True
    show ?thesis
    proof (cases "(VARBITS rm ! (index div 8)) AND push_bit (index mod 8) 1 = 0")
      case False
      with True "1.prems" have "j = index" by (subst (asm) scan_rowmap.simps) simp
      with True False show ?thesis by (auto simp: row_live_def)
    next
      case clear: True
      with True "1.prems" have "scan_rowmap rm (index + 1) = Some j"
        by (subst (asm) scan_rowmap.simps) simp
      from "1.IH" [OF True clear this]
      have ih: "index + 1 \<le> j" "j < VARBITLEN rm" "row_live rm j"
        "\<forall>k. index + 1 \<le> k \<and> k < j \<longrightarrow> \<not> row_live rm k"
        by simp_all
      have "\<not> row_live rm k" if "index \<le> k" "k < j" for k
      proof (cases "k = index")
        case True
        with clear show ?thesis by (simp add: row_live_def)
      next
        case False
        with that ih(4) show ?thesis by simp
      qed
      with ih show ?thesis by simp
    qed
  qed
qed

lemma scan_rowmap_None:
  "scan_rowmap rm i = None \<Longrightarrow> i \<le> k \<Longrightarrow> k < VARBITLEN rm \<Longrightarrow> \<not> row_live rm k"
proof (induction rm i rule: scan_rowmap.induct)
  case (1 rm index)
  have lt: "index < VARBITLEN rm" using "1.prems" by simp
  have clear: "(VARBITS rm ! (index div 8)) AND push_bit (index mod 8) 1 = 0"
    using "1.prems"(1) lt by (subst (asm) scan_rowmap.simps) (simp split: if_splits)
  have nxt: "scan_rowmap rm (index + 1) = None"
    using "1.prems"(1) lt clear by (subst (asm) scan_rowmap.simps) simp
  show ?case
  proof (cases "k = index")
    case True
    with clear show ?thesis by (simp add: row_live_def)
  next
    case False
    with "1.prems" have "index + 1 \<le> k" by simp
    from "1.IH" [OF lt clear nxt this "1.prems"(3)] show ?thesis .
  qed
qed

text \<open>
  One walk over the row map, started at position \<open>i\<close>, stops at the first position from
  \<open>i\<close> on whose bit is set and skips only positions whose bit is clear; it reaches the
  end only when no bit from \<open>i\<close> on is set.
\<close>

theorem walk_finds_next_live_bit:
  "(case scan_rowmap rm i of
      None \<Rightarrow> (\<forall>k. i \<le> k \<and> k < VARBITLEN rm \<longrightarrow> \<not> row_live rm k)
    | Some j \<Rightarrow> i \<le> j \<and> j < VARBITLEN rm \<and> row_live rm j
                \<and> (\<forall>k. i \<le> k \<and> k < j \<longrightarrow> \<not> row_live rm k))"
proof (cases "scan_rowmap rm i")
  case None
  then show ?thesis using scan_rowmap_None [of rm i] by auto
next
  case (Some j)
  then show ?thesis using scan_rowmap_Some [of rm i j] by simp
qed

theorem walk_finds_next_live_bit_witness:
  "scan_rowmap \<lparr>VARBITLEN = 8, VARBITS = [6]\<rparr> 0 = Some 1
   \<and> \<not> row_live \<lparr>VARBITLEN = 8, VARBITS = [6]\<rparr> 0
   \<and> row_live \<lparr>VARBITLEN = 8, VARBITS = [6]\<rparr> 1"
proof -
  have a: "scan_rowmap \<lparr>VARBITLEN = 8, VARBITS = [6]\<rparr> 0 = Some 1"
    by (subst scan_rowmap.simps, simp add: push_bit_of_1)
       (subst scan_rowmap.simps, simp add: push_bit_of_1)
  show ?thesis
    using a walk_finds_next_live_bit [where rm = "\<lparr>VARBITLEN = 8, VARBITS = [6]\<rparr>" and i = 0]
    by simp
qed

text \<open>A lookup writes only its own column of the slot.\<close>

lemma scan_column_store_other_column:
  assumes "c \<noteq> csidx"
  shows "tts_values (fst (pgstrom_scan_column_store s csidx rid slot)) c = tts_values slot c
         \<and> tts_isnull (fst (pgstrom_scan_column_store s csidx rid slot)) c = tts_isnull slot c"
proof -
  have f: "tts_values (fetch_out t csidx rid slot) c = tts_values slot c
           \<and> tts_isnull (fetch_out t csidx rid slot) c = tts_isnull slot c" for t
    using assms by (simp add: fetch_out_def set_column_def split: option.splits)
  have g: "tts_values (fst (full_seek t csidx rid slot)) c = tts_values slot c
           \<and> tts_isnull (fst (full_seek t csidx rid slot)) c = tts_isnull slot c" for t
    using assms f
    by (simp add: full_seek_def Let_def set_column_def split: prod.splits option.splits)
  show ?thesis
    using f g by (simp add: pgstrom_scan_column_store_def split: prod.splits bool.splits)
qed

lemma required_cols_scan_column_store:
  "required_cols (snd (pgstrom_scan_column_store s csidx rid slot)) = required_cols s"
  using frame_scan_column_store [of s csidx rid slot] by (simp add: pipeline_frame_def)

lemma scan_columns_other_column:
  "c \<notin> set cols \<Longrightarrow>
     tts_values (fst (scan_columns s chunk index cols slot)) c = tts_values slot c
     \<and> tts_isnull (fst (scan_columns s chunk index cols slot)) c = tts_isnull slot c"
proof (induction cols arbitrary: s slot)
  case Nil
  show ?case by simp
next
  case (Cons csidx rest)
  then have ne: "c \<noteq> csidx" and nr: "c \<notin> set rest" by auto
  obtain slot1 s1 where
    l: "pgstrom_scan_column_store s csidx (rowid chunk + int index) slot = (slot1, s1)"
    by (cases "pgstrom_scan_column_store s csidx (rowid chunk + int index) slot")
  have o: "tts_values slot1 c = tts_values slot c \<and> tts_isnull slot1 c = tts_isnull slot c"
    using scan_column_store_other_column [OF ne, of s "rowid chunk + int index" slot] l by simp
  show ?case
    using Cons.IH [OF nr] ne l o by (simp add: set_column_def split: option.splits)
qed

lemma scan_columns_unrequired:
  "csidx \<in> set cols \<Longrightarrow> distinct cols \<Longrightarrow> csidx + 1 \<notin> required_cols s \<Longrightarrow>
     tts_values (fst (scan_columns s chunk index cols slot)) csidx = 0
     \<and> tts_isnull (fst (scan_columns s chunk index cols slot)) csidx"
proof (induction cols arbitrary: s slot)
  case Nil
  then show ?case by simp
next
  case (Cons c rest)
  obtain slot1 s1 where
    l: "pgstrom_scan_column_store s c (rowid chunk + int index) slot = (slot1, s1)"
    by (cases "pgstrom_scan_column_store s c (rowid chunk + int index) slot")
  have r1: "required_cols s1 = required_cols s"
    using required_cols_scan_column_store [of s c "rowid chunk + int index" slot] l by simp
  show ?case
  proof (cases "csidx = c")
    case True
    then have "c \<notin> set rest" using Cons.prems(2) by simp
    from scan_columns_other_column [OF this, of s chunk index "set_column slot c (0, True)"]
    show ?thesis
      using True Cons.prems(3) by (simp add: set_column_def)
  next
    case False
    then have m: "csidx \<in> set rest" and d: "distinct rest"
      using Cons.prems by simp_all
    show ?thesis
      using Cons.IH [OF m d] Cons.prems(3) l r1 by (simp split: option.splits)
  qed
qed

text \<open>
  In an emitted row every column below the chunk's \<open>nattrs\<close> whose ordinal is not
  required is null with value 0, and every column from \<open>nattrs\<close> on is as the slot held
  it before the call.
\<close>

theorem visited_unrequired_column_is_null:
  assumes "pgstrom_scan_chunk_buffer s pos slot = (True, slot', s')"
  shows "(csidx < nattrs (chunks s ! (chunk_ready_list s ! pos)) \<and> csidx + 1 \<notin> required_cols s
            \<longrightarrow> tts_values slot' csidx = 0 \<and> tts_isnull slot' csidx)
         \<and> (nattrs (chunks s ! (chunk_ready_list s ! pos)) \<le> csidx
            \<longrightarrow> tts_values slot' csidx = tts_values slot csidx
                \<and> tts_isnull slot' csidx = tts_isnull slot csidx)"
proof -
  define chunk where "chunk = chunks s ! (chunk_ready_list s ! pos)"
  from assms obtain index slot1 where
    "scan_columns s chunk index [0..<nattrs chunk] slot = (slot1, s')"
    "slot' = ExecStoreVirtualTuple slot1"
    by (auto simp: pgstrom_scan_chunk_buffer_def chunk_def [symmetric]
             split: option.splits prod.splits)
  then have "slot' = ExecStoreVirtualTuple (fst (scan_columns s chunk index [0..<nattrs chunk] slot))"
    by simp
  then show ?thesis
    using scan_columns_unrequired [of csidx "[0..<nattrs chunk]" s chunk index slot]
      scan_columns_other_column [of csidx "[0..<nattrs chunk]" s chunk index slot]
    by (simp add: ExecStoreVirtualTuple_def chunk_def [symmetric])
qed

lemma two_live_scan_again:
  "pgstrom_scan_chunk_buffer two_live_after 0 (ExecClearTuple demo_slot)
     = (True, two_live_row, two_live_after)"
  by (simp add: two_live_after_def pgstrom_scan_chunk_buffer_def
        empty_chunk_def scan_rowmap_two_live upt_conv_Cons lookup_defs two_live_store_def
        ExecClearTuple_def ExecStoreVirtualTuple_def two_live_row_def demo_slot_def)

theorem visited_unrequired_column_is_null_witness:
  "pgstrom_scan_chunk_buffer two_live_after 0 (ExecClearTuple demo_slot)
     = (True, two_live_row, two_live_after)
   \<and> 1 < nattrs (chunks two_live_after ! (chunk_ready_list two_live_after ! 0))
   \<and> 1 + 1 \<notin> required_cols two_live_after
   \<and> tts_values two_live_row 1 = 0 \<and> tts_isnull two_live_row 1
   \<and> nattrs (chunks two_live_after ! (chunk_ready_list two_live_after ! 0)) \<le> 2
   \<and> tts_values two_live_row 2 = tts_values (ExecClearTuple demo_slot) 2
   \<and> tts_isnull two_live_row 2 = tts_isnull (ExecClearTuple demo_slot) 2"
proof -
  have a: "1 < nattrs (chunks two_live_after ! (chunk_ready_list two_live_after ! 0))"
    and b: "1 + 1 \<notin> required_cols two_live_after"
    and c: "nattrs (chunks two_live_after ! (chunk_ready_list two_live_after ! 0)) \<le> 2"
    by (simp_all add: two_live_after_def empty_chunk_def)
  show ?thesis
    using a b c two_live_scan_again
      visited_unrequired_column_is_null [OF two_live_scan_again, of 1]
      visited_unrequired_column_is_null [OF two_live_scan_again, of 2]
    by simp
qed

text \<open>
  The loader loads as many chunks as it was asked for, or as many as the row map has
  left when these are fewer, and consumes exactly that many tuples of the row map.
\<close>

theorem load_count_is_what_is_left:
  "fst (pgstrom_load_chunk_buffer env s num) = min (nat num) (length (ri_scan s))
   \<and> ri_scan (snd (pgstrom_load_chunk_buffer env s num))
       = drop (min (nat num) (length (ri_scan s))) (ri_scan s)"
  using load_chunk_loop_lists [of env "nat num" s]
  by (simp add: pgstrom_load_chunk_buffer_def)

end
